theory Spec2Isabelle
  imports Complex_Main "HOL-Library.AList"
begin

section \<open>Data model\<close>

text \<open>
  Nodes live in the shared list \<open>all_nodes\<close>; every Python reference to a node
  (parent, neighbour, route target, message sender) is the index of that node in the
  list. Python compares nodes by identity, which is equality of indices here.
  The identifier of node \<open>i\<close> is \<^verbatim>\<open>f"Node{i:02d}"\<close> and the code reads it back only as
  \<^verbatim>\<open>int(node_id[4:])\<close>, so the record keeps that number as \<open>node_num\<close>.
  A float is the real number it denotes. The arithmetic of floats that the code uses to
  compute a distance (subtraction, addition and \<^verbatim>\<open>**\<close>) rounds its results; the three
  operations are the record \<open>float_ops\<close>, which a world carries as \<open>arith\<close> and no
  operation changes, so what is proved of a world holds whatever the rounding is.
  \<open>ieee_double\<close> below is the arithmetic of binary64. The random draws are parameters of
  the functions that make them. Logging and the colour tag are left out, and so are the
  monitor fields computed from the virtual time.
\<close>

record packet =
  src_id :: nat
  dst_prefix :: string
  packet_size :: nat
  packet_id :: nat

datatype item =
    DIS nat
  | DIO nat
  | DAO nat string
  | DAO_ACK nat string int
  | Data packet

record node =
  node_num :: nat
  position :: "real \<times> real"
  is_root :: bool
  parent :: "nat option"
  neighbors :: "nat list"
  lost_neighbors :: "nat list"
  downward_routes :: "(string \<times> nat) list"
  max_downward_routes :: nat
  prefix :: string
  Imin :: int
  Imax :: int
  I_cur :: int
  t_cur :: real
  inbox :: "item list"

record monitor =
  total_data_sent :: nat
  total_data_delivered :: nat
  control_packets_sent :: nat
  data_packets_sent :: nat
  energy_used :: real

record float_ops =
  float_sub :: "real \<Rightarrow> real \<Rightarrow> real"
  float_add :: "real \<Rightarrow> real \<Rightarrow> real"
  float_pow :: "real \<Rightarrow> real \<Rightarrow> real"

record world =
  all_nodes :: "node list"
  in_flight :: "(nat \<times> item) list"
  performance_monitor :: "monitor option"
  NUM_NODES :: nat
  MINIMUM_DISTANCE :: real
  CONNECTION_RANGE :: real
  arith :: float_ops

section \<open>Formatting of prefixes\<close>

definition hex_digit :: "nat \<Rightarrow> char" where
  "hex_digit d = ''0123456789abcdef'' ! d"

fun hex :: "nat \<Rightarrow> string" where
  "hex n = (if n < 16 then [hex_digit n] else hex (n div 16) @ [hex_digit (n mod 16)])"

declare hex.simps [simp del]

text \<open>The format \<^verbatim>\<open>{n:02x}\<close>: lower-case hexadecimal, padded with zeros to two digits.\<close>

definition fmt_02x :: "nat \<Rightarrow> string" where
  "fmt_02x n = (let s = hex n in if length s < 2 then CHR ''0'' # s else s)"

text \<open>\<^verbatim>\<open>f"{sender.prefix}:{int(self.node_id[4:]):02x}"\<close>\<close>

definition derive :: "string \<Rightarrow> nat \<Rightarrow> string" where
  "derive p n = p @ '':'' @ fmt_02x n"

definition root_prefix :: string where
  "root_prefix = ''2001:db8::1''"

definition uniform :: "real \<Rightarrow> real \<Rightarrow> real \<Rightarrow> real" where
  "uniform a b r = a + (b - a) * r"

section \<open>Floating-point arithmetic\<close>

text \<open>
  Rounding of a real to the nearest integer, a tie going to the even one, and rounding
  to the nearest number with a mantissa of 53 bits. The exponent is not bounded: the
  numbers that overflow or are subnormal in binary64 are far from the coordinates and
  distances of an area of a few hundred units.
\<close>

definition nearest_even :: "real \<Rightarrow> int" where
  "nearest_even y =
     (let f = \<lfloor>y\<rfloor> in
      if y - of_int f < 1 / 2 then f
      else if 1 / 2 < y - of_int f then f + 1
      else if even f then f else f + 1)"

definition double :: "real \<Rightarrow> real" where
  "double x =
     (if x = 0 then 0
      else let e = \<lfloor>log 2 \<bar>x\<bar>\<rfloor> - 52
           in of_int (nearest_even (x / 2 powi e)) * 2 powi e)"

text \<open>
  The operations of binary64, each the exact result rounded. \<^verbatim>\<open>x ** 2\<close> is the rounded
  square and \<^verbatim>\<open>x ** 0.5\<close> the rounded square root, as the C library computes them for
  these two exponents.
\<close>

definition ieee_double :: float_ops where
  "ieee_double =
     \<lparr>float_sub = (\<lambda>x y. double (x - y)),
      float_add = (\<lambda>x y. double (x + y)),
      float_pow = (\<lambda>x y. double (if y = 2 then x * x
                                   else if y = 0.5 then sqrt x else x powr y))\<rparr>"

section \<open>The performance monitor\<close>

definition TX_COST :: real where "TX_COST = 0.75"
definition RX_COST :: real where "RX_COST = 0.25"

definition new_monitor :: monitor where
  "new_monitor = \<lparr>total_data_sent = 0, total_data_delivered = 0, control_packets_sent = 0,
     data_packets_sent = 0, energy_used = 0\<rparr>"

definition on_data_packet_created :: "monitor \<Rightarrow> monitor" where
  "on_data_packet_created m =
     m\<lparr>total_data_sent := total_data_sent m + 1, data_packets_sent := data_packets_sent m + 1\<rparr>"

definition on_data_packet_delivered :: "monitor \<Rightarrow> monitor" where
  "on_data_packet_delivered m = m\<lparr>total_data_delivered := total_data_delivered m + 1\<rparr>"

definition on_control_packet_sent :: "monitor \<Rightarrow> monitor" where
  "on_control_packet_sent m = m\<lparr>control_packets_sent := control_packets_sent m + 1\<rparr>"

definition on_transmit :: "monitor \<Rightarrow> monitor" where
  "on_transmit m = m\<lparr>energy_used := energy_used m + TX_COST\<rparr>"

definition on_receive :: "monitor \<Rightarrow> monitor" where
  "on_receive m = m\<lparr>energy_used := energy_used m + RX_COST\<rparr>"

text \<open>\<^verbatim>\<open>if self.performance_monitor: self.performance_monitor.f()\<close>\<close>

definition notify :: "(monitor \<Rightarrow> monitor) \<Rightarrow> world \<Rightarrow> world" where
  "notify f w = w\<lparr>performance_monitor := map_option f (performance_monitor w)\<rparr>"

definition notify_control :: "world \<Rightarrow> world" where
  "notify_control w = notify on_transmit (notify on_control_packet_sent w)"

section \<open>Nodes\<close>

text \<open>\<^verbatim>\<open>Node.__init__\<close>; \<open>r\<close> is the draw of \<^verbatim>\<open>random.uniform(self.Imin, self.I)\<close>.\<close>

definition Node :: "nat \<Rightarrow> real \<times> real \<Rightarrow> bool \<Rightarrow> real \<Rightarrow> node" where
  "Node i pos rt r =
     \<lparr>node_num = i, position = pos, is_root = rt, parent = None, neighbors = [],
      lost_neighbors = [], downward_routes = [], max_downward_routes = 800,
      prefix = (if rt then root_prefix else ''2001:db8::'' @ fmt_02x i),
      Imin = 1, Imax = 8, I_cur = 1, t_cur = uniform 1 1 r, inbox = []\<rparr>"

text \<open>
  \<^verbatim>\<open>((x1 - x2) ** 2 + (y1 - y2) ** 2) ** 0.5\<close>, in the arithmetic \<open>fl\<close>.
\<close>

definition calculate_distance :: "float_ops \<Rightarrow> node \<Rightarrow> real \<times> real \<Rightarrow> real" where
  "calculate_distance fl self other_pos =
     float_pow fl
       (float_add fl
          (float_pow fl (float_sub fl (fst (position self)) (fst other_pos)) 2)
          (float_pow fl (float_sub fl (snd (position self)) (snd other_pos)) 2))
       0.5"

definition upd_node :: "nat \<Rightarrow> (node \<Rightarrow> node) \<Rightarrow> world \<Rightarrow> world" where
  "upd_node i f w = w\<lparr>all_nodes := (all_nodes w)[i := f (all_nodes w ! i)]\<rparr>"

text \<open>\<^verbatim>\<open>node.inbox.append(m)\<close>\<close>

definition inbox_append :: "nat \<Rightarrow> item \<Rightarrow> world \<Rightarrow> world" where
  "inbox_append i m w = upd_node i (\<lambda>n. n\<lparr>inbox := inbox n @ [m]\<rparr>) w"

text \<open>
  The delayed deliveries \<^verbatim>\<open>_delay_tx\<close> and \<^verbatim>\<open>_delay_ack\<close> wait the same 0.1 time units
  before they append to the target's inbox, so they land in the order they were started:
  \<open>in_flight\<close> is that queue.
\<close>

definition send_packet :: "world \<Rightarrow> nat \<Rightarrow> packet \<Rightarrow> nat \<Rightarrow> world" where
  "send_packet w self pkt next_hop =
     (let w1 = notify on_transmit w
      in w1\<lparr>in_flight := in_flight w1 @ [(next_hop, Data pkt)]\<rparr>)"

definition handle_packet :: "world \<Rightarrow> nat \<Rightarrow> packet \<Rightarrow> world" where
  "handle_packet w self pkt =
     (let n = all_nodes w ! self in
      if dst_prefix pkt = prefix n then notify on_data_packet_delivered w
      else case map_of (downward_routes n) (dst_prefix pkt) of
             Some child \<Rightarrow> send_packet w self pkt child
           | None \<Rightarrow> (case parent n of
                        Some p \<Rightarrow> send_packet w self pkt p
                      | None \<Rightarrow> w))"

definition send_dao_ack :: "world \<Rightarrow> nat \<Rightarrow> nat \<Rightarrow> string \<Rightarrow> int \<Rightarrow> world" where
  "send_dao_ack w self child_node child_prefix status =
     (let w1 = notify_control w
      in w1\<lparr>in_flight := in_flight w1 @ [(child_node, DAO_ACK self child_prefix status)]\<rparr>)"

text \<open>\<^verbatim>\<open>receive_dao_ack\<close> only writes to the log.\<close>

definition receive_dao_ack :: "world \<Rightarrow> nat \<Rightarrow> nat \<Rightarrow> string \<Rightarrow> int \<Rightarrow> world" where
  "receive_dao_ack w self from_node child_prefix status = w"

fun discover_loop :: "nat \<Rightarrow> nat list \<Rightarrow> world \<Rightarrow> world" where
  "discover_loop self [] w = w"
| "discover_loop self (i # rest) w =
     discover_loop self rest
       (if i \<noteq> self \<and>
           calculate_distance (arith w) (all_nodes w ! self) (position (all_nodes w ! i)) \<le> CONNECTION_RANGE w
        then inbox_append i (DIS self) w else w)"

definition discover_neighbors :: "world \<Rightarrow> nat \<Rightarrow> world" where
  "discover_neighbors w self =
     discover_loop self [0..<length (all_nodes w)] (notify_control w)"

definition receive_dis :: "world \<Rightarrow> nat \<Rightarrow> nat \<Rightarrow> world" where
  "receive_dis w self sender =
     (let dist = calculate_distance (arith w) (all_nodes w ! self) (position (all_nodes w ! sender)) in
      if sender \<notin> set (neighbors (all_nodes w ! self)) \<and> dist \<le> CONNECTION_RANGE w then
        let w1 = upd_node self (\<lambda>n. n\<lparr>neighbors := neighbors n @ [sender]\<rparr>) w;
            w2 = (if self \<notin> set (neighbors (all_nodes w1 ! sender))
                  then upd_node sender (\<lambda>n. n\<lparr>neighbors := neighbors n @ [self]\<rparr>) w1
                  else w1)
        in inbox_append sender (DIO self) (notify_control w2)
      else w)"

fun send_dio_loop :: "nat \<Rightarrow> nat list \<Rightarrow> world \<Rightarrow> world" where
  "send_dio_loop self [] w = w"
| "send_dio_loop self (nbr # rest) w =
     send_dio_loop self rest
       (if parent (all_nodes w ! nbr) \<noteq> Some self
        then inbox_append nbr (DIO self) (notify_control w) else w)"

text \<open>One round of the \<^verbatim>\<open>while True\<close> loop of \<^verbatim>\<open>send_dio\<close>.\<close>

definition send_dio :: "world \<Rightarrow> nat \<Rightarrow> world" where
  "send_dio w self = send_dio_loop self (neighbors (all_nodes w ! self)) w"

text \<open>
  \<^verbatim>\<open>send_dao\<close> reads \<^verbatim>\<open>self.parent.node_id\<close>: without a parent it raises
  \<^verbatim>\<open>AttributeError\<close>, which is \<open>None\<close> here.
\<close>

definition send_dao :: "world \<Rightarrow> nat \<Rightarrow> world option" where
  "send_dao w self =
     (case parent (all_nodes w ! self) of
        None \<Rightarrow> None
      | Some p \<Rightarrow> Some (inbox_append p (DAO self (prefix (all_nodes w ! self))) (notify_control w)))"

text \<open>The two assignments \<^verbatim>\<open>self.parent = sender; self.prefix = f"{sender.prefix}:..."\<close>.\<close>

definition adopt :: "world \<Rightarrow> nat \<Rightarrow> nat \<Rightarrow> world" where
  "adopt w self sender =
     (let w1 = upd_node self (\<lambda>n. n\<lparr>parent := Some sender\<rparr>) w
      in upd_node self
           (\<lambda>n. n\<lparr>prefix := derive (prefix (all_nodes w1 ! sender)) (node_num n)\<rparr>) w1)"

text \<open>
  \<^verbatim>\<open>receive_dio\<close> runs \<^verbatim>\<open>send_dao\<close> as a sub-process started at the same virtual time.
  Only \<^verbatim>\<open>receive_dio\<close> of the same node writes the parent and the prefix that \<^verbatim>\<open>send_dao\<close>
  reads, and the inbox pump starts one handler per 0.2 time units, so the two run here
  as one step.
\<close>

definition receive_dio :: "world \<Rightarrow> nat \<Rightarrow> nat \<Rightarrow> world option" where
  "receive_dio w self sender =
     (let n = all_nodes w ! self in
      if is_root n then Some w
      else case parent n of
             None \<Rightarrow> send_dao (adopt w self sender) self
           | Some cur \<Rightarrow>
               (let dist_sender = calculate_distance (arith w) n (position (all_nodes w ! sender));
                    dist_curr = calculate_distance (arith w) n (position (all_nodes w ! cur))
                in if dist_sender < dist_curr \<and> parent (all_nodes w ! sender) \<noteq> Some self
                   then send_dao (adopt w self sender) self
                   else Some w))"

definition receive_dao :: "world \<Rightarrow> nat \<Rightarrow> string \<Rightarrow> nat \<Rightarrow> world" where
  "receive_dao w self child_prefix child_node =
     (let n = all_nodes w ! self in
      if map_of (downward_routes n) child_prefix = Some child_node then w
      else if length (downward_routes n) \<ge> max_downward_routes n then w
      else
        let w1 = upd_node self
                   (\<lambda>n. n\<lparr>downward_routes :=
                             AList.update child_prefix child_node (downward_routes n)\<rparr>) w;
            w2 = (case parent (all_nodes w1 ! self) of
                    Some p \<Rightarrow> inbox_append p (DAO child_node child_prefix) (notify_control w1)
                  | None \<Rightarrow> w1)
        in send_dao_ack w2 self child_node child_prefix 0)"

fun send_dis_loop :: "nat \<Rightarrow> nat list \<Rightarrow> world \<Rightarrow> world" where
  "send_dis_loop self [] w = w"
| "send_dis_loop self (i # rest) w =
     send_dis_loop self rest
       (if i \<noteq> self \<and>
           calculate_distance (arith w) (all_nodes w ! self) (position (all_nodes w ! i)) \<le> CONNECTION_RANGE w
        then inbox_append i (DIS self) (notify_control w) else w)"

definition send_dis :: "world \<Rightarrow> nat \<Rightarrow> world" where
  "send_dis w self = send_dis_loop self [0..<length (all_nodes w)] w"

text \<open>
  One round of \<^verbatim>\<open>trickle_timer\<close>, in its two parts: the probe runs when the timer fires,
  the update of \<open>I\<close> and \<open>t\<close> after \<^verbatim>\<open>send_dis\<close> has finished. \<open>r\<close> is the draw of
  \<^verbatim>\<open>random.uniform\<close>, a number in \<open>[0, 1)\<close>.
\<close>

definition trickle_probe :: "world \<Rightarrow> nat \<Rightarrow> world" where
  "trickle_probe w self =
     (if neighbors (all_nodes w ! self) = [] then send_dis w self else w)"

definition trickle_update :: "world \<Rightarrow> nat \<Rightarrow> real \<Rightarrow> world" where
  "trickle_update w self r =
     (let w1 = upd_node self (\<lambda>n. n\<lparr>I_cur := min (I_cur n * 2) (Imax n)\<rparr>) w
      in upd_node self
           (\<lambda>n. n\<lparr>t_cur := uniform (real_of_int (Imin n)) (real_of_int (I_cur n)) r\<rparr>) w1)"

definition trickle_timer :: "world \<Rightarrow> nat \<Rightarrow> real \<Rightarrow> world" where
  "trickle_timer w self r = trickle_update (trickle_probe w self) self r"

section \<open>The attack agent\<close>

definition possible_victims :: "world \<Rightarrow> nat \<Rightarrow> nat list" where
  "possible_victims w attacker =
     filter (\<lambda>i. i \<noteq> attacker \<and> length (downward_routes (all_nodes w ! i)) > 0)
       [0..<length (all_nodes w)]"

definition fake_prefix :: "nat \<Rightarrow> string" where
  "fake_prefix fake_num = ''2001:db8::'' @ hex fake_num"

text \<open>
  One pass of the loop of \<^verbatim>\<open>launch\<close>, after its timeout. \<open>k\<close> is the index that
  \<^verbatim>\<open>random.choice\<close> draws below the length of the list, \<open>fake_num\<close> the draw of
  \<^verbatim>\<open>random.randint(1000, 9999)\<close>. The result is the world and the new value of \<open>count\<close>.
\<close>

definition launch_cycle :: "world \<Rightarrow> nat \<Rightarrow> nat \<Rightarrow> nat \<Rightarrow> nat \<Rightarrow> world \<times> nat" where
  "launch_cycle w attacker count k fake_num =
     (let victims = possible_victims w attacker in
      if victims = [] then (w, count)
      else (receive_dao w (victims ! k) (fake_prefix fake_num) attacker, count + 1))"

section \<open>Runs\<close>

datatype event =
    Create "real \<times> real" real
  | Discover nat
  | Deliver nat
  | SendDio nat
  | Trickle nat real
  | Arrive
  | Attack nat nat nat
  | Traffic nat nat nat

definition init_world ::
  "float_ops \<Rightarrow> monitor option \<Rightarrow> nat \<Rightarrow> real \<Rightarrow> real \<Rightarrow> world" where
  "init_world fl mon num_nodes min_dist conn_range =
     \<lparr>all_nodes = [], in_flight = [], performance_monitor = mon, NUM_NODES = num_nodes,
      MINIMUM_DISTANCE = min_dist, CONNECTION_RANGE = conn_range, arith = fl\<rparr>"

text \<open>\<^verbatim>\<open>create_nodes\<close>: the position is kept once no node is closer than the minimum.\<close>

definition create_node :: "world \<Rightarrow> real \<times> real \<Rightarrow> real \<Rightarrow> world option" where
  "create_node w pos r =
     (let i = length (all_nodes w) in
      if i < NUM_NODES w \<and>
         list_all (\<lambda>n. \<not> calculate_distance (arith w) n pos < MINIMUM_DISTANCE w) (all_nodes w)
      then Some (w\<lparr>all_nodes := all_nodes w @ [Node i pos (i = 0) r]\<rparr>)
      else None)"

text \<open>
  \<^verbatim>\<open>run_inbox\<close>: the oldest message is popped and handed to its handler. The pump pops
  no other message of this node before the handler has run.
\<close>

definition dispatch :: "world \<Rightarrow> nat \<Rightarrow> item \<Rightarrow> world option" where
  "dispatch w self m =
     (case m of
        DAO_ACK from_node child_prefix status \<Rightarrow>
          Some (receive_dao_ack w self from_node child_prefix status)
      | DIS sender \<Rightarrow> Some (receive_dis w self sender)
      | DIO sender \<Rightarrow> receive_dio w self sender
      | DAO child_node child_prefix \<Rightarrow> Some (receive_dao w self child_prefix child_node)
      | Data pkt \<Rightarrow> Some (handle_packet (notify on_receive w) self pkt))"

definition run_inbox :: "world \<Rightarrow> nat \<Rightarrow> world option" where
  "run_inbox w self =
     (case inbox (all_nodes w ! self) of
        [] \<Rightarrow> None
      | m # rest \<Rightarrow> dispatch (upd_node self (\<lambda>n. n\<lparr>inbox := rest\<rparr>) w) self m)"

definition arrive :: "world \<Rightarrow> world option" where
  "arrive w =
     (case in_flight w of
        [] \<Rightarrow> None
      | (target, m) # rest \<Rightarrow> Some (inbox_append target m (w\<lparr>in_flight := rest\<rparr>)))"

text \<open>
  \<^verbatim>\<open>Packet.__init__\<close> with the default size; \<^verbatim>\<open>generate_traffic\<close> overwrites the
  identifier with its own counter, which is \<open>pid\<close>.
\<close>

definition Packet :: "nat \<Rightarrow> string \<Rightarrow> nat \<Rightarrow> packet" where
  "Packet src dst pid = \<lparr>src_id = src, dst_prefix = dst, packet_size = 64, packet_id = pid\<rparr>"

text \<open>One pass of \<^verbatim>\<open>generate_traffic\<close> that creates a packet.\<close>

definition generate_traffic :: "world \<Rightarrow> nat \<Rightarrow> nat \<Rightarrow> nat \<Rightarrow> world" where
  "generate_traffic w src dst pid =
     (let pkt = Packet (node_num (all_nodes w ! src)) (prefix (all_nodes w ! dst)) pid
      in send_packet (notify on_data_packet_created w) src pkt src)"

text \<open>
  An event is one atomic piece of the simulation; \<open>fire\<close> is \<open>None\<close> when the event
  cannot happen in the world (or when a handler raises). The scheduler's choice of the
  next event is left open, so the runs of the simulation are among the runs here.
  The process \<^verbatim>\<open>network_disruption\<close> has no event: its body is guarded by
  \<^verbatim>\<open>if False\<close> and never runs. The budget \<^verbatim>\<open>max_spoofs\<close> of an attacker is not
  counted, so an attacker may run any number of cycles.
\<close>

definition fire :: "world \<Rightarrow> event \<Rightarrow> world option" where
  "fire w e =
     (let n = length (all_nodes w) in
      case e of
        Create pos r \<Rightarrow> create_node w pos r
      | Discover i \<Rightarrow> if i < n then Some (discover_neighbors w i) else None
      | Deliver i \<Rightarrow> if i < n then run_inbox w i else None
      | SendDio i \<Rightarrow> if i < n then Some (send_dio w i) else None
      | Trickle i r \<Rightarrow> if i < n \<and> 0 \<le> r \<and> r < 1 then Some (trickle_timer w i r) else None
      | Arrive \<Rightarrow> arrive w
      | Attack a k f \<Rightarrow>
          if 0 < a \<and> a < n \<and> 1000 \<le> f \<and> f \<le> 9999 \<and>
             (possible_victims w a = [] \<or> k < length (possible_victims w a))
          then Some (fst (launch_cycle w a 0 k f)) else None
      | Traffic src dst pid \<Rightarrow>
          if 2 \<le> n \<and> src < n \<and> dst < n \<and> src \<noteq> dst
          then Some (generate_traffic w src dst pid) else None)"

fun run :: "world \<Rightarrow> event list \<Rightarrow> world option" where
  "run w [] = Some w"
| "run w (e # es) = (case fire w e of None \<Rightarrow> None | Some w' \<Rightarrow> run w' es)"

section \<open>Properties of worlds\<close>

text \<open>The bound on the table of downward routes of a node.\<close>

definition routes_ok :: "node \<Rightarrow> bool" where
  "routes_ok n \<longleftrightarrow> length (downward_routes n) \<le> max_downward_routes n"

text \<open>The bounds of the trickle timer of a node, with the constants of the constructor.\<close>

definition trickle_ok :: "node \<Rightarrow> bool" where
  "trickle_ok n \<longleftrightarrow> Imin n = 1 \<and> Imax n = 8 \<and> 1 \<le> I_cur n \<and> I_cur n \<le> 8 \<and>
     1 \<le> t_cur n \<and> t_cur n \<le> real_of_int (I_cur n)"

text \<open>The root is the node numbered 0; it has the fixed prefix and no parent.\<close>

definition root_ok :: "node \<Rightarrow> bool" where
  "root_ok n \<longleftrightarrow> (is_root n \<longleftrightarrow> node_num n = 0) \<and>
     (is_root n \<longrightarrow> prefix n = root_prefix \<and> parent n = None)"

text \<open>
  Every non-root node with a parent carries the prefix derived from the current prefix of
  that parent.
\<close>

definition prefix_inv :: "world \<Rightarrow> bool" where
  "prefix_inv w =
     list_all (\<lambda>n. case parent n of
                     None \<Rightarrow> True
                   | Some p \<Rightarrow> is_root n \<or>
                               prefix n = derive (prefix (all_nodes w ! p)) (node_num n))
       (all_nodes w)"

text \<open>Neighbour lists hold nodes of the world, never the node itself, and are mutual.\<close>

definition nbrs_ok :: "nat list list \<Rightarrow> bool" where
  "nbrs_ok nbs \<longleftrightarrow>
     (\<forall>a<length nbs. \<forall>b\<in>set (nbs ! a). b < length nbs \<and> b \<noteq> a \<and> a \<in> set (nbs ! b))"

definition nbr_ok :: "world \<Rightarrow> bool" where
  "nbr_ok w = nbrs_ok (map neighbors (all_nodes w))"

text \<open>Two worlds whose nodes have the same neighbour lists.\<close>

definition same_nbrs :: "world \<Rightarrow> world \<Rightarrow> bool" where
  "same_nbrs w w' \<longleftrightarrow> map neighbors (all_nodes w') = map neighbors (all_nodes w)"

text \<open>Every \<open>DIS\<close> waiting in an inbox names a sender of the world other than the receiver.\<close>

definition dis_ok :: "world \<Rightarrow> bool" where
  "dis_ok w \<longleftrightarrow>
     (\<forall>i<length (all_nodes w). \<forall>s. DIS s \<in> set (inbox (all_nodes w ! i)) \<longrightarrow>
        s < length (all_nodes w) \<and> s \<noteq> i) \<and>
     (\<forall>x\<in>set (in_flight w). \<forall>s. snd x \<noteq> DIS s)"

text \<open>Every \<open>DIO\<close> waiting in an inbox names a sender of the world other than the receiver.\<close>

definition dio_ok :: "world \<Rightarrow> bool" where
  "dio_ok w \<longleftrightarrow>
     (\<forall>i<length (all_nodes w). \<forall>s. DIO s \<in> set (inbox (all_nodes w ! i)) \<longrightarrow>
        s < length (all_nodes w) \<and> s \<noteq> i) \<and>
     (\<forall>x\<in>set (in_flight w). \<forall>s. snd x \<noteq> DIO s)"

text \<open>The fields of a node that identify it in the tree: number, root flag, parent, prefix.\<close>

definition ids :: "node \<Rightarrow> nat \<times> bool \<times> nat option \<times> string" where
  "ids n = (node_num n, is_root n, parent n, prefix n)"

definition same_ids :: "world \<Rightarrow> world \<Rightarrow> bool" where
  "same_ids w w' \<longleftrightarrow> map ids (all_nodes w') = map ids (all_nodes w)"

text \<open>
  The nodes are numbered by their place in the list, and a node whose parent is node 0
  carries the prefix derived from the fixed prefix of the root.
\<close>

definition root_child_ok :: "world \<Rightarrow> bool" where
  "root_child_ok w \<longleftrightarrow>
     (\<forall>i<length (all_nodes w).
        node_num (all_nodes w ! i) = i \<and>
        (parent (all_nodes w ! i) = Some 0 \<longrightarrow> prefix (all_nodes w ! i) = derive root_prefix i))"

section \<open>A run with four nodes\<close>

text \<open>The world before any node exists, with the parameters of \<^verbatim>\<open>config.py\<close>.\<close>

definition cfg_world :: world where
  "cfg_world = init_world ieee_double (Some new_monitor) 100 6 100"

text \<open>
  Node 1 lies 90 from the root; node 2 lies between them, 40 from the root and 50 from
  node 1; node 3 lies 90 from node 1 and out of range of the others.
\<close>

definition created_events :: "event list" where
  "created_events = [Create (0, 0) 0, Create (90, 0) 0]"

definition joined_events :: "event list" where
  "joined_events = created_events @ [Discover 1, Deliver 0, Deliver 1, Deliver 0]"

definition settled_events :: "event list" where
  "settled_events = joined_events @
     [Arrive, Deliver 1, Create (40, 0) 0, Discover 2, Deliver 0, Deliver 2, Deliver 1,
      Deliver 2, Deliver 0, Create (90, 90) 0, Discover 3, Deliver 1, Deliver 3, Deliver 1,
      SendDio 2]"

definition switched_events :: "event list" where
  "switched_events = settled_events @ [Deliver 1]"

definition created_world :: world where
  "created_world =
     \<lparr>all_nodes =
        [\<lparr>node_num = 0, position = (0, 0), is_root = True, parent = None, neighbors = [],
          lost_neighbors = [], downward_routes = [], max_downward_routes = 800,
          prefix = ''2001:db8::1'', Imin = 1, Imax = 8, I_cur = 1, t_cur = 1, inbox = []\<rparr>,
         \<lparr>node_num = 1, position = (90, 0), is_root = False, parent = None, neighbors = [],
          lost_neighbors = [], downward_routes = [], max_downward_routes = 800,
          prefix = ''2001:db8::01'', Imin = 1, Imax = 8, I_cur = 1, t_cur = 1, inbox = []\<rparr>],
      in_flight = [],
      performance_monitor = Some new_monitor,
      NUM_NODES = 100, MINIMUM_DISTANCE = 6, CONNECTION_RANGE = 100, arith = ieee_double\<rparr>"

definition joined_world :: world where
  "joined_world =
     \<lparr>all_nodes =
        [\<lparr>node_num = 0, position = (0, 0), is_root = True, parent = None, neighbors = [1],
          lost_neighbors = [], downward_routes = [(''2001:db8::1:01'', 1)],
          max_downward_routes = 800, prefix = ''2001:db8::1'', Imin = 1, Imax = 8, I_cur = 1,
          t_cur = 1, inbox = []\<rparr>,
         \<lparr>node_num = 1, position = (90, 0), is_root = False, parent = Some 0, neighbors = [0],
          lost_neighbors = [], downward_routes = [], max_downward_routes = 800,
          prefix = ''2001:db8::1:01'', Imin = 1, Imax = 8, I_cur = 1, t_cur = 1, inbox = []\<rparr>],
      in_flight = [(1, DAO_ACK 0 ''2001:db8::1:01'' 0)],
      performance_monitor =
        Some \<lparr>total_data_sent = 0, total_data_delivered = 0, control_packets_sent = 4,
               data_packets_sent = 0, energy_used = 3\<rparr>,
      NUM_NODES = 100, MINIMUM_DISTANCE = 6, CONNECTION_RANGE = 100, arith = ieee_double\<rparr>"

definition settled_world :: world where
  "settled_world =
     \<lparr>all_nodes =
        [\<lparr>node_num = 0, position = (0, 0), is_root = True, parent = None, neighbors = [1, 2],
          lost_neighbors = [],
          downward_routes = [(''2001:db8::1:01'', 1), (''2001:db8::1:02'', 2)],
          max_downward_routes = 800, prefix = ''2001:db8::1'', Imin = 1, Imax = 8, I_cur = 1,
          t_cur = 1, inbox = [DAO 3 ''2001:db8::1:01:03'', DIO 2]\<rparr>,
         \<lparr>node_num = 1, position = (90, 0), is_root = False, parent = Some 0,
          neighbors = [0, 2, 3], lost_neighbors = [],
          downward_routes = [(''2001:db8::1:01:03'', 3)], max_downward_routes = 800,
          prefix = ''2001:db8::1:01'', Imin = 1, Imax = 8, I_cur = 1, t_cur = 1,
          inbox = [DIO 2]\<rparr>,
         \<lparr>node_num = 2, position = (40, 0), is_root = False, parent = Some 0,
          neighbors = [0, 1], lost_neighbors = [], downward_routes = [],
          max_downward_routes = 800, prefix = ''2001:db8::1:02'', Imin = 1, Imax = 8,
          I_cur = 1, t_cur = 1, inbox = []\<rparr>,
         \<lparr>node_num = 3, position = (90, 90), is_root = False, parent = Some 1,
          neighbors = [1], lost_neighbors = [], downward_routes = [],
          max_downward_routes = 800, prefix = ''2001:db8::1:01:03'', Imin = 1, Imax = 8,
          I_cur = 1, t_cur = 1, inbox = []\<rparr>],
      in_flight = [(2, DAO_ACK 0 ''2001:db8::1:02'' 0), (3, DAO_ACK 1 ''2001:db8::1:01:03'' 0)],
      performance_monitor =
        Some \<lparr>total_data_sent = 0, total_data_delivered = 0, control_packets_sent = 16,
               data_packets_sent = 0, energy_used = 12\<rparr>,
      NUM_NODES = 100, MINIMUM_DISTANCE = 6, CONNECTION_RANGE = 100, arith = ieee_double\<rparr>"

section \<open>A tie between two senders\<close>

text \<open>
  Three positions with four decimals, as \<^verbatim>\<open>create_nodes\<close> draws them: each coordinate is
  the double nearest to the decimal. The first is at the same distance from the other two.
\<close>

definition tie_self_pos :: "real \<times> real" where
  "tie_self_pos = (double 25.0318, double 67.9707)"

definition tie_parent_pos :: "real \<times> real" where
  "tie_parent_pos = (double 32.0318, double 43.9707)"

definition tie_sender_pos :: "real \<times> real" where
  "tie_sender_pos = (double 40.0318, double 47.9707)"

text \<open>The distance between the position of a node and a position, without any rounding.\<close>

definition euclidean_distance :: "node \<Rightarrow> real \<times> real \<Rightarrow> real" where
  "euclidean_distance self other_pos =
     sqrt ((fst (position self) - fst other_pos)\<^sup>2 + (snd (position self) - snd other_pos)\<^sup>2)"

text \<open>
  The root, then node 1 and node 2 are created at the three positions; node 1 discovers
  its neighbours, the root and node 2 answer, and node 1 takes the root as parent. The
  DIO of node 2 is then the next message of node 1.
\<close>

definition tie_events :: "event list" where
  "tie_events =
     [Create tie_parent_pos 0, Create tie_self_pos 0, Create tie_sender_pos 0, Discover 1,
      Deliver 0, Deliver 2, Deliver 1]"

definition tie_world :: world where
  "tie_world =
     \<lparr>all_nodes =
        [\<lparr>node_num = 0, position = tie_parent_pos, is_root = True, parent = None,
          neighbors = [1], lost_neighbors = [], downward_routes = [],
          max_downward_routes = 800, prefix = ''2001:db8::1'', Imin = 1, Imax = 8, I_cur = 1,
          t_cur = 1, inbox = [DAO 1 ''2001:db8::1:01'']\<rparr>,
         \<lparr>node_num = 1, position = tie_self_pos, is_root = False, parent = Some 0,
          neighbors = [0, 2], lost_neighbors = [], downward_routes = [],
          max_downward_routes = 800, prefix = ''2001:db8::1:01'', Imin = 1, Imax = 8,
          I_cur = 1, t_cur = 1, inbox = [DIO 2]\<rparr>,
         \<lparr>node_num = 2, position = tie_sender_pos, is_root = False, parent = None,
          neighbors = [1], lost_neighbors = [], downward_routes = [],
          max_downward_routes = 800, prefix = ''2001:db8::02'', Imin = 1, Imax = 8,
          I_cur = 1, t_cur = 1, inbox = []\<rparr>],
      in_flight = [],
      performance_monitor =
        Some \<lparr>total_data_sent = 0, total_data_delivered = 0, control_packets_sent = 4,
               data_packets_sent = 0, energy_used = 3\<rparr>,
      NUM_NODES = 100, MINIMUM_DISTANCE = 6, CONNECTION_RANGE = 100, arith = ieee_double\<rparr>"

section \<open>Evaluation of concrete runs\<close>

lemma nearest_even_eq:
  assumes "of_int m - 1 / 2 < y" "y < of_int m + 1 / 2"
  shows "nearest_even y = m"
proof (cases "of_int m \<le> y")
  case True
  with assms have "\<lfloor>y\<rfloor> = m" by linarith
  with assms show ?thesis by (simp add: nearest_even_def)
next
  case False
  with assms have "\<lfloor>y\<rfloor> = m - 1" by linarith
  with assms False show ?thesis by (simp add: nearest_even_def)
qed

lemma nearest_even_of_int: "nearest_even (of_int m) = m"
  by (rule nearest_even_eq) simp_all

lemma nearest_even_ge_floor: "\<lfloor>y\<rfloor> \<le> nearest_even y"
  by (simp add: nearest_even_def Let_def)

lemma floor_log2_bounds:
  assumes "x \<noteq> 0"
  shows "2 powi \<lfloor>log 2 \<bar>x\<bar>\<rfloor> \<le> \<bar>x\<bar>" "\<bar>x\<bar> < 2 powi (\<lfloor>log 2 \<bar>x\<bar>\<rfloor> + 1)"
proof -
  let ?e = "\<lfloor>log 2 \<bar>x\<bar>\<rfloor>"
  from assms have pos: "0 < \<bar>x\<bar>" by simp
  have "of_int ?e \<le> log 2 \<bar>x\<bar>" by simp
  with pos le_log_iff[of 2 "\<bar>x\<bar>" "of_int ?e"] have "2 powr of_int ?e \<le> \<bar>x\<bar>" by simp
  then show "2 powi ?e \<le> \<bar>x\<bar>" by (simp add: powr_real_of_int')
  have "log 2 \<bar>x\<bar> < of_int (?e + 1)" by linarith
  then have "\<bar>x\<bar> < 2 powr of_int (?e + 1)" using pos by (simp add: log_less_iff del: of_int_add)
  then show "\<bar>x\<bar> < 2 powi (?e + 1)" by (simp add: powr_real_of_int' del: of_int_add)
qed

lemma floor_log2_eq:
  assumes "2 powi e \<le> \<bar>x\<bar>" "\<bar>x\<bar> < 2 powi (e + 1)"
  shows "\<lfloor>log 2 \<bar>x\<bar>\<rfloor> = e"
proof -
  have "(0::real) < 2 powi e" by simp
  with assms have pos: "0 < \<bar>x\<bar>" by linarith
  from assms(1) have "2 powr of_int e \<le> \<bar>x\<bar>" by (simp add: powr_real_of_int')
  then have 1: "of_int e \<le> log 2 \<bar>x\<bar>" using pos by (simp add: le_log_iff)
  from assms(2) have "\<bar>x\<bar> < 2 powr of_int (e + 1)" by (simp add: powr_real_of_int' del: of_int_add)
  then have 2: "log 2 \<bar>x\<bar> < of_int (e + 1)" using pos by (simp add: log_less_iff del: of_int_add)
  from 1 2 show ?thesis by linarith
qed

lemma double_of_int:
  assumes "\<bar>m\<bar> < 2 ^ 53"
  shows "double (of_int m) = of_int m"
proof (cases "m = 0")
  case True
  then show ?thesis by (simp add: double_def)
next
  case False
  let ?x = "real_of_int m"
  let ?e = "\<lfloor>log 2 \<bar>?x\<bar>\<rfloor>"
  from False have nz: "?x \<noteq> 0" by simp
  note b = floor_log2_bounds[OF nz]
  from assms have "\<bar>?x\<bar> < 2 ^ 53" by (metis of_int_abs of_int_less_numeral_power_cancel_iff)
  with b(1) have "(2::real) powi ?e < 2 powi 53" by simp
  then have "?e < 53" by (rule power_int_le_imp_less_exp[rotated]) simp_all
  then have le: "?e \<le> 52" by simp
  define s where "s = nat (52 - ?e)"
  from le have e: "?e - 52 = - int s" by (simp add: s_def)
  have sc: "(2::real) powi (- int s) = 1 / 2 ^ s"
    by (simp add: power_int_minus field_simps)
  have "?x / (1 / 2 ^ s) = of_int (m * 2 ^ s)" by simp
  then have "nearest_even (?x / (1 / 2 ^ s)) = m * 2 ^ s"
    by (simp only: nearest_even_of_int)
  with nz show ?thesis
    by (simp add: double_def Let_def e sc)
qed

lemma double_ge_of_int:
  assumes "0 < x" "x < 2 ^ 53" "of_int n \<le> x"
  shows "of_int n \<le> double x"
proof -
  let ?e = "\<lfloor>log 2 \<bar>x\<bar>\<rfloor>"
  from assms have nz: "x \<noteq> 0" by simp
  note b = floor_log2_bounds[OF nz]
  from assms b(1) have "(2::real) powi ?e < 2 powi 53" by simp
  then have "?e < 53" by (rule power_int_le_imp_less_exp[rotated]) simp_all
  then have le: "?e \<le> 52" by simp
  define s where "s = nat (52 - ?e)"
  from le have e: "?e - 52 = - int s" by (simp add: s_def)
  have sc: "(2::real) powi (- int s) = 1 / 2 ^ s"
    by (simp add: power_int_minus field_simps)
  have "of_int (n * 2 ^ s) \<le> x * 2 ^ s" using assms(3) by simp
  then have "n * 2 ^ s \<le> \<lfloor>x * 2 ^ s\<rfloor>" by (simp only: le_floor_iff)
  also have "\<dots> \<le> nearest_even (x * 2 ^ s)" by (rule nearest_even_ge_floor)
  finally have "real_of_int (n * 2 ^ s) \<le> of_int (nearest_even (x * 2 ^ s))"
    by (simp only: of_int_le_iff)
  then have "real_of_int n \<le> of_int (nearest_even (x * 2 ^ s)) / 2 ^ s"
    by (simp add: field_simps)
  with nz show ?thesis
    by (simp add: double_def Let_def e sc)
qed

lemma nearest_even_tie:
  assumes "y = of_int m + 1 / 2 \<or> y = of_int m - 1 / 2" "even m"
  shows "nearest_even y = m"
  using assms(1)
proof
  assume y: "y = of_int m + 1 / 2"
  then have "\<lfloor>y\<rfloor> = m" by linarith
  with y assms(2) show ?thesis by (simp add: nearest_even_def)
next
  assume y: "y = of_int m - 1 / 2"
  then have "\<lfloor>y\<rfloor> = m - 1" by linarith
  with y assms(2) show ?thesis by (simp add: nearest_even_def)
qed

lemma double_scaled:
  assumes "j + k = 52" "2 ^ k \<le> \<bar>x\<bar>" "\<bar>x\<bar> < 2 * 2 ^ k"
  shows "double x = of_int (nearest_even (x * 2 ^ j)) / 2 ^ j"
proof -
  have nz: "x \<noteq> 0"
  proof
    assume "x = 0"
    with assms(2) have "(2::real) ^ k \<le> 0" by simp
    moreover have "(0::real) < 2 ^ k" by simp
    ultimately show False by linarith
  qed
  have "\<lfloor>log 2 \<bar>x\<bar>\<rfloor> = int k"
    by (rule floor_log2_eq) (use assms in \<open>simp_all add: power_int_add\<close>)
  then have e: "\<lfloor>log 2 \<bar>x\<bar>\<rfloor> - 52 = - int j" using assms(1) by simp
  have sc: "(2::real) powi (- int j) = 1 / 2 ^ j"
    by (simp add: power_int_minus field_simps)
  from nz show ?thesis
    by (simp add: double_def Let_def e sc)
qed

lemma double_eqI:
  assumes "j + k = 52" "2 ^ k \<le> \<bar>x\<bar>" "\<bar>x\<bar> < 2 * 2 ^ k"
    "of_int m - 1 / 2 < x * 2 ^ j" "x * 2 ^ j < of_int m + 1 / 2"
  shows "double x = of_int m / 2 ^ j"
  unfolding double_scaled[OF assms(1-3)] nearest_even_eq[OF assms(4,5)] ..

lemma double_tieI:
  assumes "j + k = 52" "2 ^ k \<le> \<bar>x\<bar>" "\<bar>x\<bar> < 2 * 2 ^ k"
    "x * 2 ^ j = of_int m + 1 / 2 \<or> x * 2 ^ j = of_int m - 1 / 2" "even m"
  shows "double x = of_int m / 2 ^ j"
  unfolding double_scaled[OF assms(1-3)] nearest_even_tie[OF assms(4,5)] ..

lemma double_sqrtI:
  assumes "j + k = 52" "(2 ^ k)\<^sup>2 \<le> s" "s < (2 * 2 ^ k)\<^sup>2" "1 \<le> m"
    "((of_int m - 1 / 2) / 2 ^ j)\<^sup>2 < s" "s < ((of_int m + 1 / 2) / 2 ^ j)\<^sup>2"
  shows "double (sqrt s) = of_int m / 2 ^ j"
proof (rule double_eqI[OF assms(1)])
  have "(0::real) \<le> (2 ^ k)\<^sup>2" by simp
  with assms(2) have s: "0 \<le> s" by linarith
  then have a: "\<bar>sqrt s\<bar> = sqrt s" by simp
  show "2 ^ k \<le> \<bar>sqrt s\<bar>"
    unfolding a by (rule real_le_rsqrt) (rule assms(2))
  show "\<bar>sqrt s\<bar> < 2 * 2 ^ k"
    unfolding a by (rule real_less_lsqrt) (use assms(3) in simp_all)
  have "(of_int m - 1 / 2) / 2 ^ j < sqrt s"
    by (rule real_less_rsqrt) (rule assms(5))
  then show "of_int m - 1 / 2 < sqrt s * 2 ^ j"
    by (simp add: field_simps)
  from assms(4) have "(0::real) \<le> (of_int m + 1 / 2) / 2 ^ j" by simp
  then have "sqrt s < (of_int m + 1 / 2) / 2 ^ j"
    using assms(6) by (intro real_less_lsqrt) simp_all
  then show "sqrt s * 2 ^ j < of_int m + 1 / 2"
    by (simp add: field_simps)
qed

lemma calculate_distance_ieee:
  "calculate_distance ieee_double n p =
     double (sqrt (double
       (double (double (fst (position n) - fst p) * double (fst (position n) - fst p)) +
        double (double (snd (position n) - snd p) * double (snd (position n) - snd p)))))"
  by (simp add: calculate_distance_def ieee_double_def)

text \<open>
  Between positions with integer coordinates the differences, the squares and their sum
  are computed without rounding.
\<close>

lemma int_sum_of_squares_ieee:
  fixes a b S :: int
  assumes "a\<^sup>2 + b\<^sup>2 = S" "S < 2 ^ 52"
  shows "double (double (double (of_int a) * double (of_int a)) +
                 double (double (of_int b) * double (of_int b))) = of_int S"
proof -
  have sq: "a\<^sup>2 \<le> S" "b\<^sup>2 \<le> S"
    using assms(1) by auto
  have ab: "\<bar>c\<bar> < 2 ^ 53" if "c\<^sup>2 \<le> S" for c :: int
  proof -
    have "\<bar>c\<bar> \<le> c\<^sup>2"
    proof (cases "c = 0")
      case False
      then have "1 \<le> \<bar>c\<bar>" by simp
      from self_le_power[OF this, of 2] show ?thesis by simp
    qed simp
    with that assms(2) show ?thesis by simp
  qed
  have 1: "double (of_int a) = of_int a" "double (of_int b) = of_int b"
    by (rule double_of_int, rule ab, rule sq)+
  have 2: "double (of_int a * of_int a) = of_int (a\<^sup>2)"
    using double_of_int[of "a\<^sup>2"] sq(1) assms(2) by (simp add: power2_eq_square)
  have 3: "double (of_int b * of_int b) = of_int (b\<^sup>2)"
    using double_of_int[of "b\<^sup>2"] sq(2) assms(2) by (simp add: power2_eq_square)
  have "real_of_int (a\<^sup>2) + of_int (b\<^sup>2) = of_int S"
    by (simp only: assms(1) flip: of_int_add)
  moreover have "0 \<le> S"
    using sq(1) zero_le_power2[of a] by linarith
  then have "double (of_int S) = of_int S"
    using assms(2) by (intro double_of_int) simp
  ultimately have 4: "double (of_int (a\<^sup>2) + of_int (b\<^sup>2)) = of_int S"
    by (simp only:)
  show ?thesis
    by (simp only: 1 2 3 4)
qed

lemma calculate_distance_int:
  fixes x1 y1 x2 y2 :: int
  assumes "position n = (of_int x1, of_int y1)"
    and "(x1 - x2)\<^sup>2 + (y1 - y2)\<^sup>2 < 2 ^ 52"
  shows "calculate_distance ieee_double n (of_int x2, of_int y2) =
     double (sqrt (of_int ((x1 - x2)\<^sup>2 + (y1 - y2)\<^sup>2)))"
proof -
  have "calculate_distance ieee_double n (of_int x2, of_int y2) =
      double (sqrt (double
        (double (double (of_int (x1 - x2)) * double (of_int (x1 - x2))) +
         double (double (of_int (y1 - y2)) * double (of_int (y1 - y2))))))"
    by (simp add: calculate_distance_ieee assms(1))
  also have "\<dots> = double (sqrt (of_int ((x1 - x2)\<^sup>2 + (y1 - y2)\<^sup>2)))"
    by (simp only: int_sum_of_squares_ieee[OF refl assms(2)])
  finally show ?thesis .
qed

lemma calculate_distance_int_exact:
  fixes x1 y1 x2 y2 d :: int
  assumes "position n = (of_int x1, of_int y1)"
    and "(x1 - x2)\<^sup>2 + (y1 - y2)\<^sup>2 = d\<^sup>2" "0 \<le> d" "d < 2 ^ 26"
  shows "calculate_distance ieee_double n (of_int x2, of_int y2) = of_int d"
proof -
  have d2: "d\<^sup>2 < 2 ^ 52"
    using assms(3,4) power_strict_mono[of d "2 ^ 26" 2] by simp
  have "double (sqrt (of_int (d\<^sup>2))) = of_int d"
    using double_of_int[of d] assms(3,4) by simp
  with calculate_distance_int[OF assms(1), of x2 y2] d2 show ?thesis
    by (simp only: assms(2))
qed

lemma calculate_distance_int_lower:
  fixes x1 y1 x2 y2 m :: int
  assumes "position n = (of_int x1, of_int y1)"
    and "m\<^sup>2 \<le> (x1 - x2)\<^sup>2 + (y1 - y2)\<^sup>2" "0 < m"
    and "(x1 - x2)\<^sup>2 + (y1 - y2)\<^sup>2 < 2 ^ 52"
  shows "of_int m \<le> calculate_distance ieee_double n (of_int x2, of_int y2)"
proof -
  define S where "S = (x1 - x2)\<^sup>2 + (y1 - y2)\<^sup>2"
  have S: "S < 2 ^ 52" "m\<^sup>2 \<le> S"
    using assms unfolding S_def by simp_all
  from assms(3) have "1 \<le> m\<^sup>2"
    by (metis one_le_power int_one_le_iff_zero_less)
  with S(2) have pos: "1 \<le> S" by simp
  then have one: "1 \<le> real_of_int S" by simp
  have "sqrt (of_int S) \<le> of_int S"
    by (rule real_le_lsqrt) (use one self_le_power[OF one, of 2] in simp_all)
  moreover from S(1) have "real_of_int S < 2 ^ 52"
    by (metis of_int_less_numeral_power_cancel_iff)
  ultimately have "sqrt (of_int S) < 2 ^ 53" by simp
  moreover from pos have "0 < sqrt (real_of_int S)" by simp
  moreover have "real_of_int m \<le> sqrt (of_int S)"
    by (rule real_le_rsqrt) (use S(2) in \<open>simp flip: of_int_power\<close>)
  ultimately have "of_int m \<le> double (sqrt (of_int S))"
    by (intro double_ge_of_int)
  with calculate_distance_int[OF assms(1,4)] show ?thesis
    by (simp only: S_def)
qed

text \<open>The distances between the four positions of the run.\<close>

lemma distances:
  "position n = (0, 0) \<Longrightarrow> calculate_distance ieee_double n (90, 0) = 90"
  "position n = (90, 0) \<Longrightarrow> calculate_distance ieee_double n (0, 0) = 90"
  "position n = (0, 0) \<Longrightarrow> calculate_distance ieee_double n (40, 0) = 40"
  "position n = (40, 0) \<Longrightarrow> calculate_distance ieee_double n (0, 0) = 40"
  "position n = (90, 0) \<Longrightarrow> calculate_distance ieee_double n (40, 0) = 50"
  "position n = (40, 0) \<Longrightarrow> calculate_distance ieee_double n (90, 0) = 50"
  "position n = (90, 0) \<Longrightarrow> calculate_distance ieee_double n (90, 90) = 90"
  "position n = (90, 90) \<Longrightarrow> calculate_distance ieee_double n (90, 0) = 90"
  using calculate_distance_int_exact[of n 0 0 90 0 90]
    calculate_distance_int_exact[of n 90 0 0 0 90]
    calculate_distance_int_exact[of n 0 0 40 0 40]
    calculate_distance_int_exact[of n 40 0 0 0 40]
    calculate_distance_int_exact[of n 90 0 40 0 50]
    calculate_distance_int_exact[of n 40 0 90 0 50]
    calculate_distance_int_exact[of n 90 0 90 90 90]
    calculate_distance_int_exact[of n 90 90 90 0 90]
  by simp_all

lemma far_lower:
  "position n = (0, 0) \<Longrightarrow> 101 \<le> calculate_distance ieee_double n (90, 90)"
  "position n = (90, 90) \<Longrightarrow> 101 \<le> calculate_distance ieee_double n (0, 0)"
  "position n = (40, 0) \<Longrightarrow> 101 \<le> calculate_distance ieee_double n (90, 90)"
  "position n = (90, 90) \<Longrightarrow> 101 \<le> calculate_distance ieee_double n (40, 0)"
  using calculate_distance_int_lower[of n 0 0 101 90 90]
    calculate_distance_int_lower[of n 90 90 101 0 0]
    calculate_distance_int_lower[of n 40 0 101 90 90]
    calculate_distance_int_lower[of n 90 90 101 40 0]
  by simp_all

lemma far:
  "position n = (0, 0) \<Longrightarrow> (calculate_distance ieee_double n (90, 90) < 6) = False"
  "position n = (40, 0) \<Longrightarrow> (calculate_distance ieee_double n (90, 90) < 6) = False"
  "position n = (90, 90) \<Longrightarrow> (calculate_distance ieee_double n (0, 0) \<le> 100) = False"
  "position n = (90, 90) \<Longrightarrow> (calculate_distance ieee_double n (40, 0) \<le> 100) = False"
  using far_lower[of n] by simp_all

text \<open>The three positions of the tie, as fractions, and the distances computed between them.\<close>

lemma tie_positions:
  "tie_self_pos = (7045825322025799 / 2 ^ 48, 4783012799876746 / 2 ^ 46)"
  "tie_parent_pos = (4508075079500195 / 2 ^ 47, 6188325879225621 / 2 ^ 47)"
  "tie_sender_pos = (5633974986342819 / 2 ^ 47, 6751275832646933 / 2 ^ 47)"
  unfolding tie_self_pos_def tie_parent_pos_def tie_sender_pos_def
  using
    double_eqI[of 48 4 "25.0318" 7045825322025799]
    double_eqI[of 46 6 "67.9707" 4783012799876746]
    double_eqI[of 47 5 "32.0318" 4508075079500195]
    double_eqI[of 47 5 "43.9707" 6188325879225621]
    double_eqI[of 47 5 "40.0318" 5633974986342819]
    double_eqI[of 47 5 "47.9707" 6751275832646933]
  by simp_all

lemma tie_distance_self_sender:
  assumes "position n = tie_self_pos"
  shows "calculate_distance ieee_double n tie_sender_pos = 7036874417766397 / 2 ^ 48"
proof -
  have 1: "double (fst (position n) - fst tie_sender_pos) = - 8444249301319678 / 2 ^ 49"
    unfolding assms tie_positions fst_conv
    using double_eqI[of 49 3 "7045825322025799 / 2 ^ 48 - 5633974986342819 / 2 ^ 47" "- 8444249301319678"]
    by simp
  have 2: "double (snd (position n) - snd tie_sender_pos) = 5629499534213118 / 2 ^ 48"
    unfolding assms tie_positions snd_conv
    using double_eqI[of 48 4 "4783012799876746 / 2 ^ 46 - 6751275832646933 / 2 ^ 47" 5629499534213118]
    by simp
  have 3: "double (- 8444249301319678 / 2 ^ 49 * (- 8444249301319678 / 2 ^ 49)) = 7916483719987196 / 2 ^ 45"
    using double_eqI[of 45 7 "- 8444249301319678 / 2 ^ 49 * (- 8444249301319678 / 2 ^ 49)" 7916483719987196]
    by simp
  have 4: "double (5629499534213118 / 2 ^ 48 * (5629499534213118 / 2 ^ 48)) = 7036874417766395 / 2 ^ 44"
    using double_eqI[of 44 8 "5629499534213118 / 2 ^ 48 * (5629499534213118 / 2 ^ 48)" 7036874417766395]
    by simp
  have 5: "double (7916483719987196 / 2 ^ 45 + 7036874417766395 / 2 ^ 44) = 5497558138879996 / 2 ^ 43"
    using double_tieI[of 43 9 "7916483719987196 / 2 ^ 45 + 7036874417766395 / 2 ^ 44" 5497558138879996]
    by simp
  have 6: "double (sqrt (5497558138879996 / 2 ^ 43)) = 7036874417766397 / 2 ^ 48"
    using double_sqrtI[of 48 4 "5497558138879996 / 2 ^ 43" 7036874417766397]
    by (simp add: power2_eq_square)
  show ?thesis
    unfolding calculate_distance_ieee by (simp only: 1 2 3 4 5 6)
qed

lemma tie_distance_self_parent:
  assumes "position n = tie_self_pos"
  shows "calculate_distance ieee_double n tie_parent_pos = 7036874417766398 / 2 ^ 48"
proof -
  have 1: "double (fst (position n) - fst tie_parent_pos) = - 7881299347898364 / 2 ^ 50"
    unfolding assms tie_positions fst_conv
    using double_eqI[of 50 2 "7045825322025799 / 2 ^ 48 - 4508075079500195 / 2 ^ 47" "- 7881299347898364"]
    by simp
  have 2: "double (snd (position n) - snd tie_parent_pos) = 6755399441055742 / 2 ^ 48"
    unfolding assms tie_positions snd_conv
    using double_eqI[of 48 4 "4783012799876746 / 2 ^ 46 - 6188325879225621 / 2 ^ 47" 6755399441055742]
    by simp
  have 3: "double (- 7881299347898364 / 2 ^ 50 * (- 7881299347898364 / 2 ^ 50)) = 6896136929411065 / 2 ^ 47"
    using double_eqI[of 47 5 "- 7881299347898364 / 2 ^ 50 * (- 7881299347898364 / 2 ^ 50)" 6896136929411065]
    by simp
  have 4: "double (6755399441055742 / 2 ^ 48 * (6755399441055742 / 2 ^ 48)) = 5066549580791805 / 2 ^ 43"
    using double_eqI[of 43 9 "6755399441055742 / 2 ^ 48 * (6755399441055742 / 2 ^ 48)" 5066549580791805]
    by simp
  have 5: "double (6896136929411065 / 2 ^ 47 + 5066549580791805 / 2 ^ 43) = 5497558138879997 / 2 ^ 43"
    using double_eqI[of 43 9 "6896136929411065 / 2 ^ 47 + 5066549580791805 / 2 ^ 43" 5497558138879997]
    by simp
  have 6: "double (sqrt (5497558138879997 / 2 ^ 43)) = 7036874417766398 / 2 ^ 48"
    using double_sqrtI[of 48 4 "5497558138879997 / 2 ^ 43" 7036874417766398]
    by (simp add: power2_eq_square)
  show ?thesis
    unfolding calculate_distance_ieee by (simp only: 1 2 3 4 5 6)
qed

lemma tie_distance_parent_self:
  assumes "position n = tie_parent_pos"
  shows "calculate_distance ieee_double n tie_self_pos = 7036874417766398 / 2 ^ 48"
proof -
  have 1: "double (fst (position n) - fst tie_self_pos) = 7881299347898364 / 2 ^ 50"
    unfolding assms tie_positions fst_conv
    using double_eqI[of 50 2 "4508075079500195 / 2 ^ 47 - 7045825322025799 / 2 ^ 48" 7881299347898364]
    by simp
  have 2: "double (snd (position n) - snd tie_self_pos) = - 6755399441055742 / 2 ^ 48"
    unfolding assms tie_positions snd_conv
    using double_eqI[of 48 4 "6188325879225621 / 2 ^ 47 - 4783012799876746 / 2 ^ 46" "- 6755399441055742"]
    by simp
  have 3: "double (7881299347898364 / 2 ^ 50 * (7881299347898364 / 2 ^ 50)) = 6896136929411065 / 2 ^ 47"
    using double_eqI[of 47 5 "7881299347898364 / 2 ^ 50 * (7881299347898364 / 2 ^ 50)" 6896136929411065]
    by simp
  have 4: "double (- 6755399441055742 / 2 ^ 48 * (- 6755399441055742 / 2 ^ 48)) = 5066549580791805 / 2 ^ 43"
    using double_eqI[of 43 9 "- 6755399441055742 / 2 ^ 48 * (- 6755399441055742 / 2 ^ 48)" 5066549580791805]
    by simp
  have 5: "double (6896136929411065 / 2 ^ 47 + 5066549580791805 / 2 ^ 43) = 5497558138879997 / 2 ^ 43"
    using double_eqI[of 43 9 "6896136929411065 / 2 ^ 47 + 5066549580791805 / 2 ^ 43" 5497558138879997]
    by simp
  have 6: "double (sqrt (5497558138879997 / 2 ^ 43)) = 7036874417766398 / 2 ^ 48"
    using double_sqrtI[of 48 4 "5497558138879997 / 2 ^ 43" 7036874417766398]
    by (simp add: power2_eq_square)
  show ?thesis
    unfolding calculate_distance_ieee by (simp only: 1 2 3 4 5 6)
qed

lemma tie_distance_parent_sender:
  assumes "position n = tie_parent_pos"
  shows "calculate_distance ieee_double n tie_sender_pos = 5035177455121576 / 2 ^ 49"
proof -
  have 1: "double (fst (position n) - fst tie_sender_pos) = - 4503599627370496 / 2 ^ 49"
    unfolding assms tie_positions fst_conv
    using double_eqI[of 49 3 "4508075079500195 / 2 ^ 47 - 5633974986342819 / 2 ^ 47" "- 4503599627370496"]
    by simp
  have 2: "double (snd (position n) - snd tie_sender_pos) = - 4503599627370496 / 2 ^ 50"
    unfolding assms tie_positions snd_conv
    using double_eqI[of 50 2 "6188325879225621 / 2 ^ 47 - 6751275832646933 / 2 ^ 47" "- 4503599627370496"]
    by simp
  have 3: "double (- 4503599627370496 / 2 ^ 49 * (- 4503599627370496 / 2 ^ 49)) = 4503599627370496 / 2 ^ 46"
    using double_eqI[of 46 6 "- 4503599627370496 / 2 ^ 49 * (- 4503599627370496 / 2 ^ 49)" 4503599627370496]
    by simp
  have 4: "double (- 4503599627370496 / 2 ^ 50 * (- 4503599627370496 / 2 ^ 50)) = 4503599627370496 / 2 ^ 48"
    using double_eqI[of 48 4 "- 4503599627370496 / 2 ^ 50 * (- 4503599627370496 / 2 ^ 50)" 4503599627370496]
    by simp
  have 5: "double (4503599627370496 / 2 ^ 46 + 4503599627370496 / 2 ^ 48) = 5629499534213120 / 2 ^ 46"
    using double_eqI[of 46 6 "4503599627370496 / 2 ^ 46 + 4503599627370496 / 2 ^ 48" 5629499534213120]
    by simp
  have 6: "double (sqrt (5629499534213120 / 2 ^ 46)) = 5035177455121576 / 2 ^ 49"
    using double_sqrtI[of 49 3 "5629499534213120 / 2 ^ 46" 5035177455121576]
    by (simp add: power2_eq_square)
  show ?thesis
    unfolding calculate_distance_ieee by (simp only: 1 2 3 4 5 6)
qed

lemma tie_distance_sender_self:
  assumes "position n = tie_sender_pos"
  shows "calculate_distance ieee_double n tie_self_pos = 7036874417766397 / 2 ^ 48"
proof -
  have 1: "double (fst (position n) - fst tie_self_pos) = 8444249301319678 / 2 ^ 49"
    unfolding assms tie_positions fst_conv
    using double_eqI[of 49 3 "5633974986342819 / 2 ^ 47 - 7045825322025799 / 2 ^ 48" 8444249301319678]
    by simp
  have 2: "double (snd (position n) - snd tie_self_pos) = - 5629499534213118 / 2 ^ 48"
    unfolding assms tie_positions snd_conv
    using double_eqI[of 48 4 "6751275832646933 / 2 ^ 47 - 4783012799876746 / 2 ^ 46" "- 5629499534213118"]
    by simp
  have 3: "double (8444249301319678 / 2 ^ 49 * (8444249301319678 / 2 ^ 49)) = 7916483719987196 / 2 ^ 45"
    using double_eqI[of 45 7 "8444249301319678 / 2 ^ 49 * (8444249301319678 / 2 ^ 49)" 7916483719987196]
    by simp
  have 4: "double (- 5629499534213118 / 2 ^ 48 * (- 5629499534213118 / 2 ^ 48)) = 7036874417766395 / 2 ^ 44"
    using double_eqI[of 44 8 "- 5629499534213118 / 2 ^ 48 * (- 5629499534213118 / 2 ^ 48)" 7036874417766395]
    by simp
  have 5: "double (7916483719987196 / 2 ^ 45 + 7036874417766395 / 2 ^ 44) = 5497558138879996 / 2 ^ 43"
    using double_tieI[of 43 9 "7916483719987196 / 2 ^ 45 + 7036874417766395 / 2 ^ 44" 5497558138879996]
    by simp
  have 6: "double (sqrt (5497558138879996 / 2 ^ 43)) = 7036874417766397 / 2 ^ 48"
    using double_sqrtI[of 48 4 "5497558138879996 / 2 ^ 43" 7036874417766397]
    by (simp add: power2_eq_square)
  show ?thesis
    unfolding calculate_distance_ieee by (simp only: 1 2 3 4 5 6)
qed

lemmas tie_distances =
  tie_distance_self_sender tie_distance_self_parent tie_distance_parent_self
  tie_distance_parent_sender tie_distance_sender_self

text \<open>
  At the edge of the range the rounding decides as well: the positions (119.2068, 11.2323)
  and (19.4948, 3.6483) are exactly 100 apart and the distance computed is
  100.00000000000001, so the two nodes are out of a range of 100.
\<close>

lemma edge_positions:
  "(double 119.2068, double 11.2323) = (8388432813437957 / 2 ^ 46, 6323222761814203 / 2 ^ 49)"
  "(double 19.4948, double 3.6483) = (5487298375978897 / 2 ^ 48, 8215241260267890 / 2 ^ 51)"
  using double_eqI[of 46 6 "119.2068" 8388432813437957]
    double_eqI[of 49 3 "11.2323" 6323222761814203]
    double_eqI[of 48 4 "19.4948" 5487298375978897]
    double_eqI[of 51 1 "3.6483" 8215241260267890]
  by simp_all

lemma edge_distance:
  assumes "position n = (double 119.2068, double 11.2323)"
  shows "calculate_distance ieee_double n (double 19.4948, double 3.6483) = 7036874417766401 / 2 ^ 46"
    and "\<not> calculate_distance ieee_double n (double 19.4948, double 3.6483) \<le> 100"
proof -
  have 1: "double (fst (position n) - fst (double 19.4948, double 3.6483)) = 7016608219443233 / 2 ^ 46"
    unfolding assms edge_positions fst_conv
    using double_eqI[of 46 6 "8388432813437957 / 2 ^ 46 - 5487298375978897 / 2 ^ 48" 7016608219443233]
    by simp
  have 2: "double (snd (position n) - snd (double 19.4948, double 3.6483)) = 8538824893494461 / 2 ^ 50"
    unfolding assms edge_positions snd_conv
    using double_eqI[of 50 2 "6323222761814203 / 2 ^ 49 - 8215241260267890 / 2 ^ 51" 8538824893494461]
    by simp
  have 3: "double (7016608219443233 / 2 ^ 46 * (7016608219443233 / 2 ^ 46)) = 5465937802946279 / 2 ^ 39"
    using double_eqI[of 39 13 "7016608219443233 / 2 ^ 46 * (7016608219443233 / 2 ^ 46)" 5465937802946279]
    by simp
  have 4: "double (8538824893494461 / 2 ^ 50 * (8538824893494461 / 2 ^ 50)) = 8094805999032750 / 2 ^ 47"
    using double_eqI[of 47 5 "8538824893494461 / 2 ^ 50 * (8538824893494461 / 2 ^ 50)" 8094805999032750]
    by simp
  have 5: "double (5465937802946279 / 2 ^ 39 + 8094805999032750 / 2 ^ 47) = 5497558138880001 / 2 ^ 39"
    using double_eqI[of 39 13 "5465937802946279 / 2 ^ 39 + 8094805999032750 / 2 ^ 47" 5497558138880001]
    by simp
  have 6: "double (sqrt (5497558138880001 / 2 ^ 39)) = 7036874417766401 / 2 ^ 46"
    using double_sqrtI[of 46 6 "5497558138880001 / 2 ^ 39" 7036874417766401]
    by (simp add: power2_eq_square)
  show d: "calculate_distance ieee_double n (double 19.4948, double 3.6483) = 7036874417766401 / 2 ^ 46"
    unfolding calculate_distance_ieee by (simp only: 1 2 3 4 5 6)
  show "\<not> calculate_distance ieee_double n (double 19.4948, double 3.6483) \<le> 100"
    unfolding d by simp
qed

lemmas eval_defs =
  cfg_world_def init_world_def fire_def create_node_def Node_def discover_neighbors_def
  run_inbox_def dispatch_def receive_dis_def receive_dio_def receive_dao_def send_dao_def
  adopt_def send_dao_ack_def send_dio_def trickle_timer_def trickle_probe_def
  trickle_update_def send_dis_def arrive_def upd_node_def inbox_append_def notify_control_def
  notify_def handle_packet_def send_packet_def receive_dao_ack_def launch_cycle_def
  possible_victims_def fake_prefix_def generate_traffic_def Packet_def
  on_control_packet_sent_def on_transmit_def on_receive_def on_data_packet_delivered_def
  on_data_packet_created_def new_monitor_def TX_COST_def RX_COST_def
  distances far
  derive_def fmt_02x_def hex.simps hex_digit_def root_prefix_def uniform_def Let_def
  upt_conv_Cons

lemma run_append:
  "run w (es @ fs) = (case run w es of None \<Rightarrow> None | Some w' \<Rightarrow> run w' fs)"
  by (induction es arbitrary: w) (auto split: option.splits)

lemma run_created: "run cfg_world created_events = Some created_world"
  by (simp add: created_events_def created_world_def eval_defs)

lemma run_joined: "run cfg_world joined_events = Some joined_world"
  by (simp add: joined_events_def run_append run_created)
     (simp add: created_world_def joined_world_def eval_defs)

lemma run_settled: "run cfg_world settled_events = Some settled_world"
  by (simp add: settled_events_def run_append run_joined)
     (simp add: joined_world_def settled_world_def eval_defs)

lemma run_tie: "run cfg_world tie_events = Some tie_world"
  by (simp add: tie_events_def tie_world_def eval_defs tie_distances)

section \<open>Basic facts about the state operations\<close>

named_theorems world_simps

lemma upd_node_simps [world_simps]:
  "all_nodes (upd_node i f w) = (all_nodes w)[i := f (all_nodes w ! i)]"
  "in_flight (upd_node i f w) = in_flight w"
  "performance_monitor (upd_node i f w) = performance_monitor w"
  "NUM_NODES (upd_node i f w) = NUM_NODES w"
  "MINIMUM_DISTANCE (upd_node i f w) = MINIMUM_DISTANCE w"
  "CONNECTION_RANGE (upd_node i f w) = CONNECTION_RANGE w"
  "arith (upd_node i f w) = arith w"
  by (simp_all add: upd_node_def)

lemma notify_simps [world_simps]:
  "all_nodes (notify g w) = all_nodes w"
  "in_flight (notify g w) = in_flight w"
  "performance_monitor (notify g w) = map_option g (performance_monitor w)"
  "NUM_NODES (notify g w) = NUM_NODES w"
  "MINIMUM_DISTANCE (notify g w) = MINIMUM_DISTANCE w"
  "CONNECTION_RANGE (notify g w) = CONNECTION_RANGE w"
  "arith (notify g w) = arith w"
  by (simp_all add: notify_def)

lemma notify_control_simps [world_simps]:
  "all_nodes (notify_control w) = all_nodes w"
  "in_flight (notify_control w) = in_flight w"
  "performance_monitor (notify_control w) =
     map_option (on_transmit \<circ> on_control_packet_sent) (performance_monitor w)"
  "NUM_NODES (notify_control w) = NUM_NODES w"
  "MINIMUM_DISTANCE (notify_control w) = MINIMUM_DISTANCE w"
  "CONNECTION_RANGE (notify_control w) = CONNECTION_RANGE w"
  "arith (notify_control w) = arith w"
  by (simp_all add: notify_control_def notify_def option.map_comp)

lemma inbox_append_simps [world_simps]:
  "all_nodes (inbox_append i m w) =
     (all_nodes w)[i := (all_nodes w ! i)\<lparr>inbox := inbox (all_nodes w ! i) @ [m]\<rparr>]"
  "in_flight (inbox_append i m w) = in_flight w"
  "performance_monitor (inbox_append i m w) = performance_monitor w"
  "NUM_NODES (inbox_append i m w) = NUM_NODES w"
  "MINIMUM_DISTANCE (inbox_append i m w) = MINIMUM_DISTANCE w"
  "CONNECTION_RANGE (inbox_append i m w) = CONNECTION_RANGE w"
  "arith (inbox_append i m w) = arith w"
  by (simp_all add: inbox_append_def upd_node_def)

lemma send_packet_simps [world_simps]:
  "all_nodes (send_packet w self pkt h) = all_nodes w"
  "in_flight (send_packet w self pkt h) = in_flight w @ [(h, Data pkt)]"
  "performance_monitor (send_packet w self pkt h) =
     map_option on_transmit (performance_monitor w)"
  "NUM_NODES (send_packet w self pkt h) = NUM_NODES w"
  "MINIMUM_DISTANCE (send_packet w self pkt h) = MINIMUM_DISTANCE w"
  "CONNECTION_RANGE (send_packet w self pkt h) = CONNECTION_RANGE w"
  "arith (send_packet w self pkt h) = arith w"
  by (simp_all add: send_packet_def notify_def Let_def)

lemma send_dao_ack_simps [world_simps]:
  "all_nodes (send_dao_ack w self c p st) = all_nodes w"
  "in_flight (send_dao_ack w self c p st) = in_flight w @ [(c, DAO_ACK self p st)]"
  "performance_monitor (send_dao_ack w self c p st) =
     map_option (on_transmit \<circ> on_control_packet_sent) (performance_monitor w)"
  "NUM_NODES (send_dao_ack w self c p st) = NUM_NODES w"
  "MINIMUM_DISTANCE (send_dao_ack w self c p st) = MINIMUM_DISTANCE w"
  "CONNECTION_RANGE (send_dao_ack w self c p st) = CONNECTION_RANGE w"
  "arith (send_dao_ack w self c p st) = arith w"
  by (simp_all add: send_dao_ack_def notify_control_simps Let_def)

lemma nth_upd_field:
  "(\<And>n. F (f n) = F n) \<Longrightarrow> F ((xs[i := f (xs ! i)]) ! j) = F (xs ! j)"
  by (cases "i < length xs"; cases "j = i") (simp_all add: list_update_beyond)

lemma map_upd_field:
  "F y = F (xs ! i) \<Longrightarrow> map F (xs[i := y]) = map F xs"
proof (cases "i < length xs")
  case True
  assume "F y = F (xs ! i)"
  with True have "(map F xs)[i := F y] = (map F xs)[i := map F xs ! i]" by simp
  then show ?thesis by (simp add: map_update)
next
  case False
  then show ?thesis by (simp add: list_update_beyond)
qed

lemma update_length_present:
  "map_of al k = Some v \<Longrightarrow> length (AList.update k v' al) = length al"
  by (induction al) (auto split: if_splits)

lemma update_length_le: "length (AList.update k v al) \<le> Suc (length al)"
  by (induction al) auto

section \<open>Packet forwarding\<close>

text \<open>
  Claim C7. A node that handles a data packet does exactly one of four things, tried in
  this order: when the destination is its own prefix it reports the delivery to the
  monitor and forwards nothing; else, when the destination is a key of its downward
  routes, it sends the packet to the mapped child; else, when it has a parent, it sends
  the packet to the parent; else it drops the packet and the world, with the delivery
  counter, stays as it was.
\<close>

theorem handle_packet_priority:
  "(dst_prefix pkt = prefix (all_nodes w ! self) \<longrightarrow>
      all_nodes (handle_packet w self pkt) = all_nodes w \<and>
      in_flight (handle_packet w self pkt) = in_flight w \<and>
      performance_monitor (handle_packet w self pkt) =
        map_option on_data_packet_delivered (performance_monitor w)) \<and>
   (dst_prefix pkt \<noteq> prefix (all_nodes w ! self) \<and>
    map_of (downward_routes (all_nodes w ! self)) (dst_prefix pkt) = Some child \<longrightarrow>
      all_nodes (handle_packet w self pkt) = all_nodes w \<and>
      in_flight (handle_packet w self pkt) = in_flight w @ [(child, Data pkt)] \<and>
      performance_monitor (handle_packet w self pkt) =
        map_option on_transmit (performance_monitor w)) \<and>
   (dst_prefix pkt \<noteq> prefix (all_nodes w ! self) \<and>
    map_of (downward_routes (all_nodes w ! self)) (dst_prefix pkt) = None \<and>
    parent (all_nodes w ! self) = Some p \<longrightarrow>
      all_nodes (handle_packet w self pkt) = all_nodes w \<and>
      in_flight (handle_packet w self pkt) = in_flight w @ [(p, Data pkt)] \<and>
      performance_monitor (handle_packet w self pkt) =
        map_option on_transmit (performance_monitor w)) \<and>
   (dst_prefix pkt \<noteq> prefix (all_nodes w ! self) \<and>
    map_of (downward_routes (all_nodes w ! self)) (dst_prefix pkt) = None \<and>
    parent (all_nodes w ! self) = None \<longrightarrow>
      handle_packet w self pkt = w)"
  by (simp add: handle_packet_def Let_def world_simps)

theorem handle_packet_priority_witness:
  "dst_prefix (Packet 1 ''2001:db8::1'' 0) = prefix (all_nodes joined_world ! 0) \<and>
   in_flight (handle_packet joined_world 0 (Packet 1 ''2001:db8::1'' 0)) =
     in_flight joined_world \<and>
   performance_monitor (handle_packet joined_world 0 (Packet 1 ''2001:db8::1'' 0)) =
     map_option on_data_packet_delivered (performance_monitor joined_world) \<and>
   map_of (downward_routes (all_nodes joined_world ! 0))
     (dst_prefix (Packet 0 ''2001:db8::1:01'' 1)) = Some 1 \<and>
   in_flight (handle_packet joined_world 0 (Packet 0 ''2001:db8::1:01'' 1)) =
     in_flight joined_world @ [(1, Data (Packet 0 ''2001:db8::1:01'' 1))] \<and>
   map_of (downward_routes (all_nodes joined_world ! 1))
     (dst_prefix (Packet 1 ''2001:db8::1'' 0)) = None \<and>
   parent (all_nodes joined_world ! 1) = Some 0 \<and>
   in_flight (handle_packet joined_world 1 (Packet 1 ''2001:db8::1'' 0)) =
     in_flight joined_world @ [(0, Data (Packet 1 ''2001:db8::1'' 0))] \<and>
   map_of (downward_routes (all_nodes joined_world ! 0))
     (dst_prefix (Packet 0 ''2001:db8::ff'' 2)) = None \<and>
   parent (all_nodes joined_world ! 0) = None \<and>
   handle_packet joined_world 0 (Packet 0 ''2001:db8::ff'' 2) = joined_world"
  using handle_packet_priority [of "Packet 1 ''2001:db8::1'' 0" joined_world 0]
    handle_packet_priority [of "Packet 0 ''2001:db8::1:01'' 1" joined_world 0 1]
    handle_packet_priority [of "Packet 1 ''2001:db8::1'' 0" joined_world 1 _ 0]
    handle_packet_priority [of "Packet 0 ''2001:db8::ff'' 2" joined_world 0]
  by (simp add: joined_world_def Packet_def)

section \<open>Route announcements\<close>

lemma receive_dao_routes:
  "self < length (all_nodes w) \<Longrightarrow>
   downward_routes (all_nodes (receive_dao w self p c) ! self) =
     (if map_of (downward_routes (all_nodes w ! self)) p = Some c \<or>
         max_downward_routes (all_nodes w ! self) \<le> length (downward_routes (all_nodes w ! self))
      then downward_routes (all_nodes w ! self)
      else AList.update p c (downward_routes (all_nodes w ! self)))"
  by (simp add: receive_dao_def Let_def nth_list_update world_simps split: option.split)

text \<open>
  Claim C3. A DAO whose pair of prefix and child is already in the table of the receiving
  node leaves the whole world as it was: no entry changes, no acknowledgment is queued and
  nothing is appended to the inbox of the parent. Handling any DAO a second time changes
  nothing more than handling it once.
\<close>

theorem receive_dao_duplicate:
  "(map_of (downward_routes (all_nodes w ! self)) child_prefix = Some child_node \<longrightarrow>
      receive_dao w self child_prefix child_node = w) \<and>
   (self < length (all_nodes w) \<longrightarrow>
      receive_dao (receive_dao w self child_prefix child_node) self child_prefix child_node =
      receive_dao w self child_prefix child_node)"
proof (intro conjI impI)
  assume "map_of (downward_routes (all_nodes w ! self)) child_prefix = Some child_node"
  then show "receive_dao w self child_prefix child_node = w"
    by (simp add: receive_dao_def)
next
  assume valid: "self < length (all_nodes w)"
  let ?w' = "receive_dao w self child_prefix child_node"
  let ?n = "all_nodes w ! self"
  show "receive_dao ?w' self child_prefix child_node = ?w'"
  proof (cases "map_of (downward_routes ?n) child_prefix = Some child_node \<or>
                max_downward_routes ?n \<le> length (downward_routes ?n)")
    case True
    then have "?w' = w" by (auto simp: receive_dao_def Let_def)
    then show ?thesis by simp
  next
    case False
    with valid have "downward_routes (all_nodes ?w' ! self) =
        AList.update child_prefix child_node (downward_routes ?n)"
      by (simp add: receive_dao_routes)
    then have "map_of (downward_routes (all_nodes ?w' ! self)) child_prefix = Some child_node"
      by (simp add: update_conv')
    then show ?thesis
      by (simp add: receive_dao_def[of ?w'])
  qed
qed

theorem receive_dao_duplicate_witness:
  "map_of (downward_routes (all_nodes joined_world ! 0)) ''2001:db8::1:01'' = Some 1 \<and>
   receive_dao joined_world 0 ''2001:db8::1:01'' 1 = joined_world \<and>
   1 < length (all_nodes settled_world) \<and>
   receive_dao (receive_dao settled_world 1 ''2001:db8::3e8'' 3) 1 ''2001:db8::3e8'' 3 =
     receive_dao settled_world 1 ''2001:db8::3e8'' 3"
  using receive_dao_duplicate [where w = joined_world and self = 0
      and child_prefix = "''2001:db8::1:01''" and child_node = 1]
    receive_dao_duplicate [where w = settled_world and self = 1
      and child_prefix = "''2001:db8::3e8''" and child_node = 3]
  by (simp add: joined_world_def settled_world_def)

text \<open>
  Claim C4. A DAO that is neither a duplicate nor stopped by a full table installs the
  mapping from the prefix to the child; when the receiving node has a parent, the same
  pair is appended to the inbox of that parent as a new DAO, and without a parent no inbox
  changes; in both cases an acknowledgment with status 0 for the child is queued.
\<close>

theorem receive_dao_install:
  "self < length (all_nodes w) \<and>
   map_of (downward_routes (all_nodes w ! self)) child_prefix \<noteq> Some child_node \<and>
   length (downward_routes (all_nodes w ! self)) < max_downward_routes (all_nodes w ! self) \<longrightarrow>
     map_of (downward_routes (all_nodes (receive_dao w self child_prefix child_node) ! self))
       child_prefix = Some child_node \<and>
     downward_routes (all_nodes (receive_dao w self child_prefix child_node) ! self) =
       AList.update child_prefix child_node (downward_routes (all_nodes w ! self)) \<and>
     in_flight (receive_dao w self child_prefix child_node) =
       in_flight w @ [(child_node, DAO_ACK self child_prefix 0)] \<and>
     (\<forall>q. parent (all_nodes w ! self) = Some q \<and> q < length (all_nodes w) \<longrightarrow>
        inbox (all_nodes (receive_dao w self child_prefix child_node) ! q) =
          inbox (all_nodes w ! q) @ [DAO child_node child_prefix]) \<and>
     (parent (all_nodes w ! self) = None \<longrightarrow>
        map inbox (all_nodes (receive_dao w self child_prefix child_node)) =
          map inbox (all_nodes w))"
  by (auto simp: receive_dao_def Let_def nth_list_update update_conv' map_upd_field world_simps
      split: option.split)

theorem receive_dao_install_witness:
  "1 < length (all_nodes settled_world) \<and>
   map_of (downward_routes (all_nodes settled_world ! 1)) ''2001:db8::3e8'' \<noteq> Some 3 \<and>
   length (downward_routes (all_nodes settled_world ! 1))
     < max_downward_routes (all_nodes settled_world ! 1) \<and>
   parent (all_nodes settled_world ! 1) = Some 0 \<and>
   0 < length (all_nodes settled_world) \<and>
   map_of (downward_routes (all_nodes (receive_dao settled_world 1 ''2001:db8::3e8'' 3) ! 1))
     ''2001:db8::3e8'' = Some 3 \<and>
   in_flight (receive_dao settled_world 1 ''2001:db8::3e8'' 3) =
     in_flight settled_world @ [(3, DAO_ACK 1 ''2001:db8::3e8'' 0)] \<and>
   inbox (all_nodes (receive_dao settled_world 1 ''2001:db8::3e8'' 3) ! 0) =
     inbox (all_nodes settled_world ! 0) @ [DAO 3 ''2001:db8::3e8''] \<and>
   parent (all_nodes joined_world ! 0) = None \<and>
   map_of (downward_routes (all_nodes (receive_dao joined_world 0 ''2001:db8::3e8'' 1) ! 0))
     ''2001:db8::3e8'' = Some 1 \<and>
   map inbox (all_nodes (receive_dao joined_world 0 ''2001:db8::3e8'' 1)) =
     map inbox (all_nodes joined_world)"
  using receive_dao_install [where w = settled_world and self = 1
      and child_prefix = "''2001:db8::3e8''" and child_node = 3]
    receive_dao_install [where w = joined_world and self = 0
      and child_prefix = "''2001:db8::3e8''" and child_node = 1]
  by (simp add: joined_world_def settled_world_def)

text \<open>
  Claim C10. When the prefix of a DAO is installed for another child, the DAO is not a
  duplicate. Below capacity the entry is overwritten with the new child, the size of the
  table stays, and the DAO is forwarded to the parent and acknowledged as a fresh one is;
  at capacity the DAO is rejected and the world stays as it was, although the table would
  not have grown.
\<close>

theorem receive_dao_other_child:
  "self < length (all_nodes w) \<and>
   map_of (downward_routes (all_nodes w ! self)) child_prefix = Some c \<and> c \<noteq> c' \<longrightarrow>
     (length (downward_routes (all_nodes w ! self)) < max_downward_routes (all_nodes w ! self) \<longrightarrow>
        downward_routes (all_nodes (receive_dao w self child_prefix c') ! self) =
          AList.update child_prefix c' (downward_routes (all_nodes w ! self)) \<and>
        map_of (downward_routes (all_nodes (receive_dao w self child_prefix c') ! self))
          child_prefix = Some c' \<and>
        length (downward_routes (all_nodes (receive_dao w self child_prefix c') ! self)) =
          length (downward_routes (all_nodes w ! self)) \<and>
        in_flight (receive_dao w self child_prefix c') =
          in_flight w @ [(c', DAO_ACK self child_prefix 0)] \<and>
        (\<forall>q. parent (all_nodes w ! self) = Some q \<and> q < length (all_nodes w) \<longrightarrow>
           inbox (all_nodes (receive_dao w self child_prefix c') ! q) =
             inbox (all_nodes w ! q) @ [DAO c' child_prefix])) \<and>
     (max_downward_routes (all_nodes w ! self) \<le> length (downward_routes (all_nodes w ! self)) \<longrightarrow>
        receive_dao w self child_prefix c' = w)"
  by (auto simp: receive_dao_def Let_def nth_list_update update_conv' update_length_present
      world_simps split: option.split)

theorem receive_dao_other_child_witness:
  "1 < length (all_nodes settled_world) \<and>
   map_of (downward_routes (all_nodes settled_world ! 1)) ''2001:db8::1:01:03'' = Some 3 \<and>
   (3::nat) \<noteq> 2 \<and>
   length (downward_routes (all_nodes settled_world ! 1))
     < max_downward_routes (all_nodes settled_world ! 1) \<and>
   downward_routes (all_nodes (receive_dao settled_world 1 ''2001:db8::1:01:03'' 2) ! 1) =
     [(''2001:db8::1:01:03'', 2)] \<and>
   in_flight (receive_dao settled_world 1 ''2001:db8::1:01:03'' 2) =
     in_flight settled_world @ [(2, DAO_ACK 1 ''2001:db8::1:01:03'' 0)] \<and>
   parent (all_nodes settled_world ! 1) = Some 0 \<and>
   inbox (all_nodes (receive_dao settled_world 1 ''2001:db8::1:01:03'' 2) ! 0) =
     inbox (all_nodes settled_world ! 0) @ [DAO 2 ''2001:db8::1:01:03''] \<and>
   max_downward_routes
     (all_nodes (upd_node 1 (\<lambda>n. n\<lparr>max_downward_routes := 1\<rparr>) settled_world) ! 1)
     \<le> length (downward_routes
         (all_nodes (upd_node 1 (\<lambda>n. n\<lparr>max_downward_routes := 1\<rparr>) settled_world) ! 1)) \<and>
   receive_dao (upd_node 1 (\<lambda>n. n\<lparr>max_downward_routes := 1\<rparr>) settled_world) 1
       ''2001:db8::1:01:03'' 2 =
     upd_node 1 (\<lambda>n. n\<lparr>max_downward_routes := 1\<rparr>) settled_world"
  using receive_dao_other_child [where w = settled_world and self = 1
      and child_prefix = "''2001:db8::1:01:03''" and c = 3 and c' = 2]
    receive_dao_other_child [
      where w = "upd_node 1 (\<lambda>n. n\<lparr>max_downward_routes := 1\<rparr>) settled_world"
      and self = 1 and child_prefix = "''2001:db8::1:01:03''" and c = 3 and c' = 2]
  by (simp add: settled_world_def upd_node_def)

section \<open>Properties of single nodes that every event keeps\<close>

lemma list_all_upd:
  "list_all P xs \<Longrightarrow> (i < length xs \<Longrightarrow> P y) \<Longrightarrow> list_all P (xs[i := y])"
  by (cases "i < length xs")
    (auto simp: list_all_iff list_update_beyond dest: set_update_subset_insert[THEN subsetD])

lemma upd_node_local:
  "list_all P (all_nodes w) \<Longrightarrow>
   (i < length (all_nodes w) \<Longrightarrow> P (all_nodes w ! i) \<Longrightarrow> P (f (all_nodes w ! i))) \<Longrightarrow>
   list_all P (all_nodes (upd_node i f w))"
  unfolding upd_node_simps
  by (rule list_all_upd) (simp_all add: list_all_length)

lemma inbox_append_local:
  "list_all P (all_nodes w) \<Longrightarrow> (\<And>n x. P (n\<lparr>inbox := x\<rparr>) = P n) \<Longrightarrow>
   list_all P (all_nodes (inbox_append i m w))"
  unfolding inbox_append_def by (rule upd_node_local) simp_all

lemma discover_loop_local:
  "list_all P (all_nodes w) \<Longrightarrow> (\<And>n x. P (n\<lparr>inbox := x\<rparr>) = P n) \<Longrightarrow>
   list_all P (all_nodes (discover_loop self js w))"
proof (induction js arbitrary: w)
  case Nil
  then show ?case by simp
next
  case (Cons j js)
  show ?case
    unfolding discover_loop.simps
    by (rule Cons.IH) (use Cons.prems in \<open>auto intro: inbox_append_local\<close>)
qed

lemma send_dis_loop_local:
  "list_all P (all_nodes w) \<Longrightarrow> (\<And>n x. P (n\<lparr>inbox := x\<rparr>) = P n) \<Longrightarrow>
   list_all P (all_nodes (send_dis_loop self js w))"
proof (induction js arbitrary: w)
  case Nil
  then show ?case by simp
next
  case (Cons j js)
  have "list_all P (all_nodes (inbox_append j (DIS self) (notify_control w)))"
    by (rule inbox_append_local) (use Cons.prems in \<open>simp_all add: notify_control_simps\<close>)
  with Cons.prems show ?case
    unfolding send_dis_loop.simps by (intro Cons.IH) simp_all
qed

lemma send_dio_loop_local:
  "list_all P (all_nodes w) \<Longrightarrow> (\<And>n x. P (n\<lparr>inbox := x\<rparr>) = P n) \<Longrightarrow>
   list_all P (all_nodes (send_dio_loop self js w))"
proof (induction js arbitrary: w)
  case Nil
  then show ?case by simp
next
  case (Cons j js)
  have "list_all P (all_nodes (inbox_append j (DIO self) (notify_control w)))"
    by (rule inbox_append_local) (use Cons.prems in \<open>simp_all add: notify_control_simps\<close>)
  with Cons.prems show ?case
    unfolding send_dio_loop.simps by (intro Cons.IH) simp_all
qed

lemma receive_dis_local:
  assumes "list_all P (all_nodes w)"
    and inbox: "\<And>n x. P (n\<lparr>inbox := x\<rparr>) = P n"
    and nbrs: "\<And>n x. P (n\<lparr>neighbors := x\<rparr>) = P n"
  shows "list_all P (all_nodes (receive_dis w self sender))"
proof -
  let ?w1 = "upd_node self (\<lambda>n. n\<lparr>neighbors := neighbors n @ [sender]\<rparr>) w"
  let ?w2 = "upd_node sender (\<lambda>n. n\<lparr>neighbors := neighbors n @ [self]\<rparr>) ?w1"
  have 1: "list_all P (all_nodes ?w1)"
    by (rule upd_node_local) (use assms in simp_all)
  have 2: "list_all P (all_nodes ?w2)"
    by (rule upd_node_local[OF 1]) (simp add: nbrs)
  have 3: "list_all P (all_nodes (inbox_append sender (DIO self) (notify_control ?w1)))"
    by (rule inbox_append_local) (use 1 inbox in \<open>simp_all add: notify_control_simps\<close>)
  have 4: "list_all P (all_nodes (inbox_append sender (DIO self) (notify_control ?w2)))"
    by (rule inbox_append_local) (use 2 inbox in \<open>simp_all add: notify_control_simps\<close>)
  show ?thesis
    using assms(1) 3 4 unfolding receive_dis_def Let_def by simp
qed

lemma adopt_nodes:
  "all_nodes (adopt w self sender) =
     (all_nodes w)[self := (all_nodes w ! self)
        \<lparr>parent := Some sender,
         prefix := derive (prefix (all_nodes w ! sender)) (node_num (all_nodes w ! self))\<rparr>]"
  by (cases "self < length (all_nodes w)")
    (simp_all add: adopt_def Let_def nth_upd_field list_update_beyond upd_node_simps)

lemma adopt_simps [world_simps]:
  "in_flight (adopt w self sender) = in_flight w"
  "performance_monitor (adopt w self sender) = performance_monitor w"
  "NUM_NODES (adopt w self sender) = NUM_NODES w"
  "MINIMUM_DISTANCE (adopt w self sender) = MINIMUM_DISTANCE w"
  "CONNECTION_RANGE (adopt w self sender) = CONNECTION_RANGE w"
  "arith (adopt w self sender) = arith w"
  by (simp_all add: adopt_def Let_def upd_node_simps)

lemma send_dao_local:
  "list_all P (all_nodes w) \<Longrightarrow> (\<And>n x. P (n\<lparr>inbox := x\<rparr>) = P n) \<Longrightarrow>
   send_dao w self = Some w' \<Longrightarrow> list_all P (all_nodes w')"
  unfolding send_dao_def
  by (auto split: option.splits intro!: inbox_append_local simp: notify_control_simps)

lemma receive_dio_local:
  assumes "list_all P (all_nodes w)"
    and inbox: "\<And>n x. P (n\<lparr>inbox := x\<rparr>) = P n"
    and dio: "\<And>n p x. P n \<Longrightarrow> \<not> is_root n \<Longrightarrow> P (n\<lparr>parent := Some p, prefix := x\<rparr>)"
    and res: "receive_dio w self sender = Some w'"
  shows "list_all P (all_nodes w')"
proof (cases "w' = w")
  case True
  with assms(1) show ?thesis by simp
next
  case False
  with res have nr: "\<not> is_root (all_nodes w ! self)"
    and sd: "send_dao (adopt w self sender) self = Some w'"
    by (auto simp: receive_dio_def Let_def split: if_splits option.splits)
  have "list_all P (all_nodes (adopt w self sender))"
    unfolding adopt_nodes
    by (rule list_all_upd[OF assms(1)]) (use assms(1) nr dio in \<open>simp add: list_all_length\<close>)
  then show ?thesis
    using inbox sd by (rule send_dao_local)
qed

lemma receive_dao_local:
  assumes "list_all P (all_nodes w)"
    and inbox: "\<And>n x. P (n\<lparr>inbox := x\<rparr>) = P n"
    and dao: "\<And>n k v. P n \<Longrightarrow> length (downward_routes n) < max_downward_routes n \<Longrightarrow>
               P (n\<lparr>downward_routes := AList.update k v (downward_routes n)\<rparr>)"
  shows "list_all P (all_nodes (receive_dao w self p c))"
proof -
  let ?n = "all_nodes w ! self"
  let ?w1 = "upd_node self (\<lambda>n. n\<lparr>downward_routes := AList.update p c (downward_routes n)\<rparr>) w"
  show ?thesis
  proof (cases "map_of (downward_routes ?n) p = Some c \<or>
                max_downward_routes ?n \<le> length (downward_routes ?n)")
    case True
    then have "receive_dao w self p c = w" by (auto simp: receive_dao_def Let_def)
    with assms(1) show ?thesis by simp
  next
    case False
    have 1: "list_all P (all_nodes ?w1)"
      by (rule upd_node_local[OF assms(1)]) (use False dao in simp)
    have 2: "list_all P (all_nodes (inbox_append q (DAO c p) (notify_control ?w1)))" for q
      by (rule inbox_append_local) (use 1 inbox in \<open>simp_all add: notify_control_simps\<close>)
    from False 1 2 show ?thesis
      unfolding receive_dao_def Let_def
      by (simp split: option.split add: send_dao_ack_simps)
  qed
qed

lemma trickle_timer_local:
  assumes "list_all P (all_nodes w)"
    and inbox: "\<And>n x. P (n\<lparr>inbox := x\<rparr>) = P n"
    and trickle: "\<And>n. P n \<Longrightarrow>
        P (n\<lparr>I_cur := min (I_cur n * 2) (Imax n),
             t_cur := uniform (real_of_int (Imin n)) (real_of_int (min (I_cur n * 2) (Imax n))) r\<rparr>)"
  shows "list_all P (all_nodes (trickle_timer w self r))"
proof -
  let ?w1 = "trickle_probe w self"
  have 1: "list_all P (all_nodes ?w1)"
    unfolding trickle_probe_def send_dis_def
    using assms(1) inbox by (simp add: send_dis_loop_local)
  have nodes: "all_nodes (trickle_update ?w1 self r) =
      (all_nodes ?w1)[self := (all_nodes ?w1 ! self)
         \<lparr>I_cur := min (I_cur (all_nodes ?w1 ! self) * 2) (Imax (all_nodes ?w1 ! self)),
          t_cur := uniform (real_of_int (Imin (all_nodes ?w1 ! self)))
                     (real_of_int (min (I_cur (all_nodes ?w1 ! self) * 2) (Imax (all_nodes ?w1 ! self)))) r\<rparr>]"
    by (cases "self < length (all_nodes ?w1)")
      (simp_all add: trickle_update_def Let_def list_update_beyond upd_node_simps)
  show ?thesis
    unfolding trickle_timer_def nodes
    by (rule list_all_upd[OF 1]) (use 1 trickle in \<open>simp add: list_all_length\<close>)
qed

lemma run_inbox_local:
  assumes "list_all P (all_nodes w)"
    and inbox: "\<And>n x. P (n\<lparr>inbox := x\<rparr>) = P n"
    and nbrs: "\<And>n x. P (n\<lparr>neighbors := x\<rparr>) = P n"
    and dio: "\<And>n p x. P n \<Longrightarrow> \<not> is_root n \<Longrightarrow> P (n\<lparr>parent := Some p, prefix := x\<rparr>)"
    and dao: "\<And>n k v. P n \<Longrightarrow> length (downward_routes n) < max_downward_routes n \<Longrightarrow>
               P (n\<lparr>downward_routes := AList.update k v (downward_routes n)\<rparr>)"
    and res: "run_inbox w self = Some w'"
  shows "list_all P (all_nodes w')"
proof -
  from res obtain m rest where
    d: "dispatch (upd_node self (\<lambda>n. n\<lparr>inbox := rest\<rparr>) w) self m = Some w'"
    by (auto simp: run_inbox_def split: list.splits)
  let ?w1 = "upd_node self (\<lambda>n. n\<lparr>inbox := rest\<rparr>) w"
  have 1: "list_all P (all_nodes ?w1)"
    by (rule upd_node_local[OF assms(1)]) (simp add: inbox)
  show ?thesis
  proof (cases m)
    case (DIS s)
    with d 1 inbox nbrs show ?thesis
      by (auto simp: dispatch_def intro: receive_dis_local)
  next
    case (DIO s)
    with d have "receive_dio ?w1 self s = Some w'" by (simp add: dispatch_def)
    with 1 inbox dio show ?thesis by (rule receive_dio_local)
  next
    case (DAO c p)
    with d 1 inbox dao show ?thesis
      by (auto simp: dispatch_def intro: receive_dao_local)
  next
    case (DAO_ACK f p s)
    with d 1 show ?thesis by (auto simp: dispatch_def receive_dao_ack_def)
  next
    case (Data pkt)
    with d 1 show ?thesis
      by (auto simp: dispatch_def handle_packet_def Let_def send_packet_simps notify_simps
          split: option.splits if_splits)
  qed
qed

lemma fire_local:
  assumes "fire w e = Some w'" and "list_all P (all_nodes w)"
    and inbox: "\<And>n x. P (n\<lparr>inbox := x\<rparr>) = P n"
    and nbrs: "\<And>n x. P (n\<lparr>neighbors := x\<rparr>) = P n"
    and new: "\<And>i pos r. P (Node i pos (i = 0) r)"
    and dio: "\<And>n p x. P n \<Longrightarrow> \<not> is_root n \<Longrightarrow> P (n\<lparr>parent := Some p, prefix := x\<rparr>)"
    and dao: "\<And>n k v. P n \<Longrightarrow> length (downward_routes n) < max_downward_routes n \<Longrightarrow>
               P (n\<lparr>downward_routes := AList.update k v (downward_routes n)\<rparr>)"
    and trickle: "\<And>n r. P n \<Longrightarrow> 0 \<le> r \<Longrightarrow> r < 1 \<Longrightarrow>
        P (n\<lparr>I_cur := min (I_cur n * 2) (Imax n),
             t_cur := uniform (real_of_int (Imin n)) (real_of_int (min (I_cur n * 2) (Imax n))) r\<rparr>)"
  shows "list_all P (all_nodes w')"
proof (cases e)
  case (Create pos r)
  have "P (Node (length (all_nodes w)) pos (length (all_nodes w) = 0) r)"
    by (rule new)
  with Create assms(1,2) show ?thesis
    by (simp add: fire_def create_node_def Let_def split: if_splits) force
next
  case (Discover i)
  with assms(1,2) inbox show ?thesis
    by (auto simp: fire_def discover_neighbors_def notify_control_simps split: if_splits
        intro!: discover_loop_local)
next
  case (Deliver i)
  with assms(1) have "run_inbox w i = Some w'" by (simp add: fire_def split: if_splits)
  with assms(2) inbox nbrs dio dao show ?thesis by (rule run_inbox_local)
next
  case (SendDio i)
  with assms(1,2) inbox show ?thesis
    by (auto simp: fire_def send_dio_def split: if_splits intro!: send_dio_loop_local)
next
  case (Trickle i r)
  with assms(1) have r: "0 \<le> r" "r < 1" and w': "w' = trickle_timer w i r"
    by (auto simp: fire_def split: if_splits)
  show ?thesis unfolding w'
    by (rule trickle_timer_local[OF assms(2) inbox]) (rule trickle[OF _ r])
next
  case Arrive
  with assms(1,2) inbox show ?thesis
    by (auto simp: fire_def arrive_def split: list.splits intro!: inbox_append_local)
next
  case (Attack a k f)
  with assms(1,2) inbox dao show ?thesis
    by (auto simp: fire_def launch_cycle_def Let_def split: if_splits intro!: receive_dao_local)
next
  case (Traffic src dst pid)
  with assms(1,2) show ?thesis
    by (auto simp: fire_def generate_traffic_def Let_def send_packet_simps notify_simps
        split: if_splits)
qed

lemma run_local:
  assumes "run w es = Some w'" and "list_all P (all_nodes w)"
    and inbox: "\<And>n x. P (n\<lparr>inbox := x\<rparr>) = P n"
    and nbrs: "\<And>n x. P (n\<lparr>neighbors := x\<rparr>) = P n"
    and new: "\<And>i pos r. P (Node i pos (i = 0) r)"
    and dio: "\<And>n p x. P n \<Longrightarrow> \<not> is_root n \<Longrightarrow> P (n\<lparr>parent := Some p, prefix := x\<rparr>)"
    and dao: "\<And>n k v. P n \<Longrightarrow> length (downward_routes n) < max_downward_routes n \<Longrightarrow>
               P (n\<lparr>downward_routes := AList.update k v (downward_routes n)\<rparr>)"
    and trickle: "\<And>n r. P n \<Longrightarrow> 0 \<le> r \<Longrightarrow> r < 1 \<Longrightarrow>
        P (n\<lparr>I_cur := min (I_cur n * 2) (Imax n),
             t_cur := uniform (real_of_int (Imin n)) (real_of_int (min (I_cur n * 2) (Imax n))) r\<rparr>)"
  shows "list_all P (all_nodes w')"
  using assms(1,2)
proof (induction es arbitrary: w)
  case Nil
  then show ?case by simp
next
  case (Cons e es)
  from Cons.prems(1) obtain w1 where f: "fire w e = Some w1" and r: "run w1 es = Some w'"
    by (auto split: option.splits)
  have "list_all P (all_nodes w1)"
    by (rule fire_local[OF f Cons.prems(2) inbox nbrs new dio dao trickle])
  with r show ?case by (rule Cons.IH)
qed

lemma uniform_bounds:
  assumes "a \<le> b" "0 \<le> r" "r < 1"
  shows "a \<le> uniform a b r" and "uniform a b r \<le> b"
proof -
  from assms have "0 \<le> (b - a) * r" by simp
  then show "a \<le> uniform a b r" by (simp add: uniform_def)
  from assms have "(b - a) * r \<le> (b - a) * 1"
    by (intro mult_left_mono) simp_all
  then show "uniform a b r \<le> b" by (simp add: uniform_def)
qed

lemma run_routes_ok:
  assumes "run w es = Some w'" "list_all routes_ok (all_nodes w)"
  shows "list_all routes_ok (all_nodes w')"
proof (rule run_local[OF assms])
  fix n :: node and k v
  assume "routes_ok n" "length (downward_routes n) < max_downward_routes n"
  then show "routes_ok (n\<lparr>downward_routes := AList.update k v (downward_routes n)\<rparr>)"
    using update_length_le[of k v "downward_routes n"] by (simp add: routes_ok_def)
qed (simp_all add: routes_ok_def Node_def)

lemma run_trickle_ok:
  assumes "run w es = Some w'" "list_all trickle_ok (all_nodes w)"
  shows "list_all trickle_ok (all_nodes w')"
proof (rule run_local[OF assms])
  fix n :: node and r :: real
  assume ok: "trickle_ok n" and r: "0 \<le> r" "r < 1"
  let ?I = "min (I_cur n * 2) (Imax n)"
  from ok have I: "1 \<le> ?I" "?I \<le> 8" and m: "Imin n = 1" "Imax n = 8"
    by (auto simp: trickle_ok_def)
  from I have "(1::real) \<le> real_of_int ?I" by linarith
  from uniform_bounds[OF this r] I m
  show "trickle_ok (n\<lparr>I_cur := ?I, t_cur := uniform (real_of_int (Imin n)) (real_of_int ?I) r\<rparr>)"
    by (simp add: trickle_ok_def)
qed (simp_all add: trickle_ok_def Node_def uniform_def)

lemma run_root_ok:
  assumes "run w es = Some w'" "list_all root_ok (all_nodes w)"
  shows "list_all root_ok (all_nodes w')"
  by (rule run_local[OF assms]) (simp_all add: root_ok_def Node_def)

lemma init_world_nodes: "all_nodes (init_world fl mon nn md cr) = []"
  by (simp add: init_world_def)

section \<open>The bound on the downward routes\<close>

lemma update_absent:
  "map_of al k = None \<Longrightarrow> AList.update k v al = al @ [(k, v)]"
  by (induction al) (auto split: if_splits)

text \<open>
  Claim C2. In every world that a run reaches from the empty world, the table of downward
  routes of every node holds at most \<open>max_downward_routes\<close> entries. A DAO for a prefix
  that is not in the table is rejected when the table is exactly at capacity: the world
  stays as it was, so no entry is evicted, nothing is acknowledged and nothing is
  forwarded. With one free slot the same DAO is installed as the last entry, which fills
  the table, and it is acknowledged.
\<close>

theorem routes_bounded:
  "(run (init_world fl mon nn md cr) es = Some w \<longrightarrow>
      (\<forall>n\<in>set (all_nodes w). length (downward_routes n) \<le> max_downward_routes n)) \<and>
   (map_of (downward_routes (all_nodes v ! self)) child_prefix = None \<and>
    length (downward_routes (all_nodes v ! self)) = max_downward_routes (all_nodes v ! self) \<longrightarrow>
      receive_dao v self child_prefix child_node = v) \<and>
   (self < length (all_nodes v) \<and>
    map_of (downward_routes (all_nodes v ! self)) child_prefix = None \<and>
    Suc (length (downward_routes (all_nodes v ! self))) = max_downward_routes (all_nodes v ! self) \<longrightarrow>
      downward_routes (all_nodes (receive_dao v self child_prefix child_node) ! self) =
        downward_routes (all_nodes v ! self) @ [(child_prefix, child_node)] \<and>
      length (downward_routes (all_nodes (receive_dao v self child_prefix child_node) ! self)) =
        max_downward_routes (all_nodes (receive_dao v self child_prefix child_node) ! self) \<and>
      in_flight (receive_dao v self child_prefix child_node) =
        in_flight v @ [(child_node, DAO_ACK self child_prefix 0)])"
proof (intro conjI impI)
  assume "run (init_world fl mon nn md cr) es = Some w"
  then have "list_all routes_ok (all_nodes w)"
    by (rule run_routes_ok) (simp add: init_world_nodes)
  then show "\<forall>n\<in>set (all_nodes w). length (downward_routes n) \<le> max_downward_routes n"
    by (simp add: list_all_iff routes_ok_def)
next
  assume "map_of (downward_routes (all_nodes v ! self)) child_prefix = None \<and>
    length (downward_routes (all_nodes v ! self)) = max_downward_routes (all_nodes v ! self)"
  then show "receive_dao v self child_prefix child_node = v"
    by (simp add: receive_dao_def)
next
  assume a: "self < length (all_nodes v) \<and>
    map_of (downward_routes (all_nodes v ! self)) child_prefix = None \<and>
    Suc (length (downward_routes (all_nodes v ! self))) = max_downward_routes (all_nodes v ! self)"
  then have r: "downward_routes (all_nodes (receive_dao v self child_prefix child_node) ! self) =
      downward_routes (all_nodes v ! self) @ [(child_prefix, child_node)]"
    by (simp add: receive_dao_routes update_absent)
  then show "downward_routes (all_nodes (receive_dao v self child_prefix child_node) ! self) =
      downward_routes (all_nodes v ! self) @ [(child_prefix, child_node)]" .
  have "max_downward_routes (all_nodes (receive_dao v self child_prefix child_node) ! self) =
      max_downward_routes (all_nodes v ! self)"
    by (simp add: receive_dao_def Let_def nth_upd_field world_simps split: option.split)
  with a r
  show "length (downward_routes (all_nodes (receive_dao v self child_prefix child_node) ! self)) =
      max_downward_routes (all_nodes (receive_dao v self child_prefix child_node) ! self)"
    by simp
  from a show "in_flight (receive_dao v self child_prefix child_node) =
      in_flight v @ [(child_node, DAO_ACK self child_prefix 0)]"
    by (simp add: receive_dao_def Let_def world_simps split: option.split)
qed

theorem routes_bounded_witness:
  "run (init_world ieee_double (Some new_monitor) 100 6 100) joined_events = Some joined_world \<and>
   length (downward_routes (all_nodes joined_world ! 0))
     \<le> max_downward_routes (all_nodes joined_world ! 0) \<and>
   map_of (downward_routes
     (all_nodes (upd_node 0 (\<lambda>n. n\<lparr>max_downward_routes := 1\<rparr>) joined_world) ! 0))
     ''2001:db8::3e8'' = None \<and>
   length (downward_routes
     (all_nodes (upd_node 0 (\<lambda>n. n\<lparr>max_downward_routes := 1\<rparr>) joined_world) ! 0)) =
   max_downward_routes
     (all_nodes (upd_node 0 (\<lambda>n. n\<lparr>max_downward_routes := 1\<rparr>) joined_world) ! 0) \<and>
   receive_dao (upd_node 0 (\<lambda>n. n\<lparr>max_downward_routes := 1\<rparr>) joined_world) 0
     ''2001:db8::3e8'' 1 =
   upd_node 0 (\<lambda>n. n\<lparr>max_downward_routes := 1\<rparr>) joined_world \<and>
   0 < length (all_nodes (upd_node 0 (\<lambda>n. n\<lparr>max_downward_routes := 2\<rparr>) joined_world)) \<and>
   Suc (length (downward_routes
     (all_nodes (upd_node 0 (\<lambda>n. n\<lparr>max_downward_routes := 2\<rparr>) joined_world) ! 0))) =
   max_downward_routes
     (all_nodes (upd_node 0 (\<lambda>n. n\<lparr>max_downward_routes := 2\<rparr>) joined_world) ! 0) \<and>
   downward_routes
     (all_nodes (receive_dao (upd_node 0 (\<lambda>n. n\<lparr>max_downward_routes := 2\<rparr>) joined_world) 0
        ''2001:db8::3e8'' 1) ! 0) =
   downward_routes
     (all_nodes (upd_node 0 (\<lambda>n. n\<lparr>max_downward_routes := 2\<rparr>) joined_world) ! 0) @
     [(''2001:db8::3e8'', 1)]"
proof -
  let ?full = "upd_node 0 (\<lambda>n. n\<lparr>max_downward_routes := 1\<rparr>) joined_world"
  let ?free = "upd_node 0 (\<lambda>n. n\<lparr>max_downward_routes := 2\<rparr>) joined_world"
  note t1 = routes_bounded [where fl = ieee_double and mon = "Some new_monitor" and nn = 100 and md = 6
      and cr = 100 and es = joined_events and w = joined_world and v = ?full and self = 0
      and child_prefix = "''2001:db8::3e8''" and child_node = 1]
  note t2 = routes_bounded [where fl = ieee_double and mon = "Some new_monitor" and nn = 100 and md = 6
      and cr = 100 and es = joined_events and w = joined_world and v = ?free and self = 0
      and child_prefix = "''2001:db8::3e8''" and child_node = 1]
  have r: "run (init_world ieee_double (Some new_monitor) 100 6 100) joined_events = Some joined_world"
    by (rule run_joined [unfolded cfg_world_def])
  have m: "all_nodes joined_world ! 0 \<in> set (all_nodes joined_world)"
    by (simp add: joined_world_def)
  have h1: "map_of (downward_routes (all_nodes ?full ! 0)) ''2001:db8::3e8'' = None \<and>
      length (downward_routes (all_nodes ?full ! 0)) = max_downward_routes (all_nodes ?full ! 0)"
    by (simp add: joined_world_def upd_node_def)
  have h2: "0 < length (all_nodes ?free) \<and>
      map_of (downward_routes (all_nodes ?free ! 0)) ''2001:db8::3e8'' = None \<and>
      Suc (length (downward_routes (all_nodes ?free ! 0))) =
        max_downward_routes (all_nodes ?free ! 0)"
    by (simp add: joined_world_def upd_node_def)
  from t1 [THEN conjunct1, rule_format, OF r m]
    t1 [THEN conjunct2, THEN conjunct1, rule_format, OF h1]
    t2 [THEN conjunct2, THEN conjunct2, rule_format, OF h2] r h1 h2
  show ?thesis by blast
qed

section \<open>The trickle timer\<close>

lemma inbox_append_fields:
  "length (all_nodes (inbox_append i m w)) = length (all_nodes w)"
  "position (all_nodes (inbox_append i m w) ! j) = position (all_nodes w ! j)"
  "neighbors (all_nodes (inbox_append i m w) ! j) = neighbors (all_nodes w ! j)"
  "Imin (all_nodes (inbox_append i m w) ! j) = Imin (all_nodes w ! j)"
  "Imax (all_nodes (inbox_append i m w) ! j) = Imax (all_nodes w ! j)"
  "I_cur (all_nodes (inbox_append i m w) ! j) = I_cur (all_nodes w ! j)"
  "CONNECTION_RANGE (inbox_append i m w) = CONNECTION_RANGE w"
  "arith (inbox_append i m w) = arith w"
  by (simp_all add: inbox_append_def upd_node_def nth_upd_field)

lemma inbox_append_inbox:
  "inbox (all_nodes (inbox_append i m w) ! j) =
     (if j = i \<and> i < length (all_nodes w) then inbox (all_nodes w ! j) @ [m]
      else inbox (all_nodes w ! j))"
  by (cases "i < length (all_nodes w)"; cases "j = i")
    (simp_all add: inbox_append_def upd_node_def list_update_beyond)

lemma send_dis_loop_fields:
  "length (all_nodes (send_dis_loop self js w)) = length (all_nodes w)"
  "position (all_nodes (send_dis_loop self js w) ! j) = position (all_nodes w ! j)"
  "neighbors (all_nodes (send_dis_loop self js w) ! j) = neighbors (all_nodes w ! j)"
  "Imin (all_nodes (send_dis_loop self js w) ! j) = Imin (all_nodes w ! j)"
  "Imax (all_nodes (send_dis_loop self js w) ! j) = Imax (all_nodes w ! j)"
  "I_cur (all_nodes (send_dis_loop self js w) ! j) = I_cur (all_nodes w ! j)"
  "CONNECTION_RANGE (send_dis_loop self js w) = CONNECTION_RANGE w"
  "arith (send_dis_loop self js w) = arith w"
  by (induction js arbitrary: w; simp add: inbox_append_fields notify_control_simps)+

lemma calculate_distance_cong:
  "position n = position m \<Longrightarrow> calculate_distance fl n p = calculate_distance fl m p"
  by (simp add: calculate_distance_def)

lemma send_dis_loop_inbox:
  "distinct js \<Longrightarrow> j < length (all_nodes w) \<Longrightarrow>
   inbox (all_nodes (send_dis_loop self js w) ! j) =
     inbox (all_nodes w ! j) @
       (if j \<in> set js \<and> j \<noteq> self \<and>
           calculate_distance (arith w) (all_nodes w ! self) (position (all_nodes w ! j)) \<le> CONNECTION_RANGE w
        then [DIS self] else [])"
proof (induction js arbitrary: w)
  case Nil
  then show ?case by simp
next
  case (Cons i js)
  let ?c = "i \<noteq> self \<and>
     calculate_distance (arith w) (all_nodes w ! self) (position (all_nodes w ! i)) \<le> CONNECTION_RANGE w"
  let ?w1 = "if ?c then inbox_append i (DIS self) (notify_control w) else w"
  have len: "length (all_nodes ?w1) = length (all_nodes w)"
    by (simp add: inbox_append_fields notify_control_simps)
  have pos: "position (all_nodes ?w1 ! x) = position (all_nodes w ! x)" for x
    by (simp add: inbox_append_fields notify_control_simps)
  have cr: "CONNECTION_RANGE ?w1 = CONNECTION_RANGE w"
    by (simp add: inbox_append_fields notify_control_simps)
  have ar: "arith ?w1 = arith w"
    by (simp add: inbox_append_fields notify_control_simps)
  have cd: "calculate_distance (arith ?w1) (all_nodes ?w1 ! self) p =
      calculate_distance (arith w) (all_nodes w ! self) p" for p
    unfolding ar by (rule calculate_distance_cong) (rule pos)
  have inb: "inbox (all_nodes ?w1 ! j) =
      inbox (all_nodes w ! j) @ (if j = i \<and> ?c then [DIS self] else [])"
    using Cons.prems(2) by (simp add: inbox_append_inbox notify_control_simps)
  from Cons.prems have d: "distinct js" and notin: "i \<notin> set js" by simp_all
  from Cons.prems(2) len have j: "j < length (all_nodes ?w1)" by simp
  have "inbox (all_nodes (send_dis_loop self (i # js) w) ! j) =
      inbox (all_nodes (send_dis_loop self js ?w1) ! j)"
    by simp
  also have "\<dots> = inbox (all_nodes ?w1 ! j) @
       (if j \<in> set js \<and> j \<noteq> self \<and>
           calculate_distance (arith w) (all_nodes w ! self) (position (all_nodes w ! j)) \<le> CONNECTION_RANGE w
        then [DIS self] else [])"
    unfolding Cons.IH[OF d j] cd pos cr ..
  finally show ?case
    unfolding inb using notin by auto
qed

lemma send_dis_inbox:
  "j < length (all_nodes w) \<Longrightarrow>
   inbox (all_nodes (send_dis w self) ! j) =
     inbox (all_nodes w ! j) @
       (if j \<noteq> self \<and>
           calculate_distance (arith w) (all_nodes w ! self) (position (all_nodes w ! j)) \<le> CONNECTION_RANGE w
        then [DIS self] else [])"
  by (simp add: send_dis_def send_dis_loop_inbox)

lemma trickle_probe_fields:
  "length (all_nodes (trickle_probe w self)) = length (all_nodes w)"
  "Imin (all_nodes (trickle_probe w self) ! j) = Imin (all_nodes w ! j)"
  "Imax (all_nodes (trickle_probe w self) ! j) = Imax (all_nodes w ! j)"
  "I_cur (all_nodes (trickle_probe w self) ! j) = I_cur (all_nodes w ! j)"
  by (simp_all add: trickle_probe_def send_dis_def send_dis_loop_fields)

lemma trickle_timer_fields:
  assumes "self < length (all_nodes w)"
  shows "I_cur (all_nodes (trickle_timer w self r) ! self) =
      min (2 * I_cur (all_nodes w ! self)) (Imax (all_nodes w ! self))"
    and "t_cur (all_nodes (trickle_timer w self r) ! self) =
      uniform (real_of_int (Imin (all_nodes w ! self)))
        (real_of_int (min (2 * I_cur (all_nodes w ! self)) (Imax (all_nodes w ! self)))) r"
    and "Imin (all_nodes (trickle_timer w self r) ! self) = Imin (all_nodes w ! self)"
    and "Imax (all_nodes (trickle_timer w self r) ! self) = Imax (all_nodes w ! self)"
  using assms
  by (simp_all add: trickle_timer_def trickle_update_def Let_def upd_node_simps
      trickle_probe_fields mult.commute)

lemma send_dis_loop_in_flight:
  "in_flight (send_dis_loop self js w) = in_flight w"
  by (induction js arbitrary: w) (simp_all add: inbox_append_simps notify_control_simps)

lemma trickle_update_frame:
  "inbox (all_nodes (trickle_update w self r) ! j) = inbox (all_nodes w ! j)"
  "in_flight (trickle_update w self r) = in_flight w"
  by (cases "self < length (all_nodes w)"; cases "j = self";
      simp add: trickle_update_def Let_def upd_node_simps list_update_beyond)+

lemma trickle_timer_inbox:
  assumes "j < length (all_nodes w)"
  shows "inbox (all_nodes (trickle_timer w self r) ! j) =
     inbox (all_nodes w ! j) @
       (if neighbors (all_nodes w ! self) = [] \<and> j \<noteq> self \<and>
           calculate_distance (arith w) (all_nodes w ! self) (position (all_nodes w ! j))
             \<le> CONNECTION_RANGE w
        then [DIS self] else [])"
  unfolding trickle_timer_def trickle_update_frame trickle_probe_def
  using send_dis_inbox[OF assms, of self] by simp

lemma trickle_timer_in_flight:
  "in_flight (trickle_timer w self r) = in_flight w"
  unfolding trickle_timer_def trickle_update_frame trickle_probe_def
  by (simp add: send_dis_def send_dis_loop_in_flight)

text \<open>
  Claim C8. A fire of the trickle timer of a node is the step \<open>trickle_timer\<close>. The
  step appends a DIS of the node to the inbox of every other node in range if the node has
  no neighbour, appends nothing to any inbox if it has one, and queues nothing for a
  delayed delivery: its first part is \<open>send_dis\<close> in the first case and leaves the
  world as it was in the second. In range means that the distance, as
  \<open>calculate_distance\<close> computes it, is at most the connection range. Then the bound
  \<open>I\<close> becomes \<open>min (2 * I) Imax\<close> and the next offset \<open>t\<close> is drawn between \<open>Imin\<close> and the
  new bound; from \<open>0 \<le> Imin \<le> I\<close> and \<open>Imin \<le> Imax\<close> it follows that \<open>Imin \<le> I \<le> Imax\<close>
  and \<open>Imin \<le> t \<le> I\<close> afterwards, and both hold for every node of every world that a run
  reaches from the empty world.
\<close>

theorem trickle_timer_backoff:
  "(self < length (all_nodes w) \<and> 0 \<le> r \<and> r < 1 \<longrightarrow>
      fire w (Trickle self r) = Some (trickle_timer w self r)) \<and>
   (\<forall>j<length (all_nodes w).
      inbox (all_nodes (trickle_timer w self r) ! j) =
        inbox (all_nodes w ! j) @
          (if neighbors (all_nodes w ! self) = [] \<and> j \<noteq> self \<and>
              calculate_distance (arith w) (all_nodes w ! self) (position (all_nodes w ! j))
                \<le> CONNECTION_RANGE w
           then [DIS self] else [])) \<and>
   in_flight (trickle_timer w self r) = in_flight w \<and>
   (neighbors (all_nodes w ! self) \<noteq> [] \<longrightarrow> trickle_probe w self = w) \<and>
   (neighbors (all_nodes w ! self) = [] \<longrightarrow> trickle_probe w self = send_dis w self) \<and>
   (\<forall>j<length (all_nodes w).
      inbox (all_nodes (send_dis w self) ! j) =
        inbox (all_nodes w ! j) @
          (if j \<noteq> self \<and>
              calculate_distance (arith w) (all_nodes w ! self) (position (all_nodes w ! j))
                \<le> CONNECTION_RANGE w
           then [DIS self] else [])) \<and>
   (self < length (all_nodes w) \<longrightarrow>
      I_cur (all_nodes (trickle_timer w self r) ! self) =
        min (2 * I_cur (all_nodes w ! self)) (Imax (all_nodes w ! self)) \<and>
      t_cur (all_nodes (trickle_timer w self r) ! self) =
        uniform (real_of_int (Imin (all_nodes w ! self)))
          (real_of_int (I_cur (all_nodes (trickle_timer w self r) ! self))) r) \<and>
   (self < length (all_nodes w) \<and> 0 \<le> r \<and> r < 1 \<and> 0 \<le> Imin (all_nodes w ! self) \<and>
    Imin (all_nodes w ! self) \<le> I_cur (all_nodes w ! self) \<and>
    Imin (all_nodes w ! self) \<le> Imax (all_nodes w ! self) \<longrightarrow>
      Imin (all_nodes (trickle_timer w self r) ! self)
        \<le> I_cur (all_nodes (trickle_timer w self r) ! self) \<and>
      I_cur (all_nodes (trickle_timer w self r) ! self)
        \<le> Imax (all_nodes (trickle_timer w self r) ! self) \<and>
      real_of_int (Imin (all_nodes (trickle_timer w self r) ! self))
        \<le> t_cur (all_nodes (trickle_timer w self r) ! self) \<and>
      t_cur (all_nodes (trickle_timer w self r) ! self)
        \<le> real_of_int (I_cur (all_nodes (trickle_timer w self r) ! self))) \<and>
   (run (init_world fl mon nn md cr) es = Some v \<longrightarrow>
      (\<forall>n\<in>set (all_nodes v).
         Imin n \<le> I_cur n \<and> I_cur n \<le> Imax n \<and>
         real_of_int (Imin n) \<le> t_cur n \<and> t_cur n \<le> real_of_int (I_cur n)))"
proof (intro conjI impI allI)
  assume "self < length (all_nodes w) \<and> 0 \<le> r \<and> r < 1"
  then show "fire w (Trickle self r) = Some (trickle_timer w self r)"
    by (simp add: fire_def)
next
  fix j assume "j < length (all_nodes w)"
  then show "inbox (all_nodes (trickle_timer w self r) ! j) =
        inbox (all_nodes w ! j) @
          (if neighbors (all_nodes w ! self) = [] \<and> j \<noteq> self \<and>
              calculate_distance (arith w) (all_nodes w ! self) (position (all_nodes w ! j))
                \<le> CONNECTION_RANGE w
           then [DIS self] else [])"
    by (rule trickle_timer_inbox)
next
  show "in_flight (trickle_timer w self r) = in_flight w"
    by (rule trickle_timer_in_flight)
next
  show "trickle_probe w self = w" if "neighbors (all_nodes w ! self) \<noteq> []"
    using that by (simp add: trickle_probe_def)
  show "trickle_probe w self = send_dis w self" if "neighbors (all_nodes w ! self) = []"
    using that by (simp add: trickle_probe_def)
next
  fix j assume "j < length (all_nodes w)"
  then show "inbox (all_nodes (send_dis w self) ! j) =
        inbox (all_nodes w ! j) @
          (if j \<noteq> self \<and>
              calculate_distance (arith w) (all_nodes w ! self) (position (all_nodes w ! j))
                \<le> CONNECTION_RANGE w
           then [DIS self] else [])"
    by (rule send_dis_inbox)
next
  assume v: "self < length (all_nodes w)"
  show "I_cur (all_nodes (trickle_timer w self r) ! self) =
        min (2 * I_cur (all_nodes w ! self)) (Imax (all_nodes w ! self))"
    by (rule trickle_timer_fields(1)[OF v])
  show "t_cur (all_nodes (trickle_timer w self r) ! self) =
        uniform (real_of_int (Imin (all_nodes w ! self)))
          (real_of_int (I_cur (all_nodes (trickle_timer w self r) ! self))) r"
    unfolding trickle_timer_fields(1)[OF v] by (rule trickle_timer_fields(2)[OF v])
next
  assume a: "self < length (all_nodes w) \<and> 0 \<le> r \<and> r < 1 \<and> 0 \<le> Imin (all_nodes w ! self) \<and>
    Imin (all_nodes w ! self) \<le> I_cur (all_nodes w ! self) \<and>
    Imin (all_nodes w ! self) \<le> Imax (all_nodes w ! self)"
  then have v: "self < length (all_nodes w)" and r: "0 \<le> r" "r < 1" by simp_all
  let ?I = "min (2 * I_cur (all_nodes w ! self)) (Imax (all_nodes w ! self))"
  from a have lo: "Imin (all_nodes w ! self) \<le> ?I" by simp
  then have "real_of_int (Imin (all_nodes w ! self)) \<le> real_of_int ?I" by linarith
  note u = uniform_bounds[OF this r]
  show "Imin (all_nodes (trickle_timer w self r) ! self)
        \<le> I_cur (all_nodes (trickle_timer w self r) ! self)"
    unfolding trickle_timer_fields[OF v] by (rule lo)
  show "I_cur (all_nodes (trickle_timer w self r) ! self)
        \<le> Imax (all_nodes (trickle_timer w self r) ! self)"
    unfolding trickle_timer_fields[OF v] by simp
  show "real_of_int (Imin (all_nodes (trickle_timer w self r) ! self))
        \<le> t_cur (all_nodes (trickle_timer w self r) ! self)"
    unfolding trickle_timer_fields[OF v] by (rule u(1))
  show "t_cur (all_nodes (trickle_timer w self r) ! self)
        \<le> real_of_int (I_cur (all_nodes (trickle_timer w self r) ! self))"
    unfolding trickle_timer_fields[OF v] by (rule u(2))
next
  assume "run (init_world fl mon nn md cr) es = Some v"
  then have "list_all trickle_ok (all_nodes v)"
    by (rule run_trickle_ok) (simp add: init_world_nodes)
  then show "\<forall>n\<in>set (all_nodes v).
         Imin n \<le> I_cur n \<and> I_cur n \<le> Imax n \<and>
         real_of_int (Imin n) \<le> t_cur n \<and> t_cur n \<le> real_of_int (I_cur n)"
    by (auto simp: list_all_iff trickle_ok_def)
qed

theorem trickle_timer_backoff_witness:
  "(1 < length (all_nodes created_world) \<and> (0::real) \<le> 1 / 2 \<and> (1 / 2 ::real) < 1) \<and>
   fire created_world (Trickle 1 (1 / 2)) = Some (trickle_timer created_world 1 (1 / 2)) \<and>
   0 < length (all_nodes created_world) \<and>
   inbox (all_nodes (trickle_timer created_world 1 (1 / 2)) ! 0) =
     inbox (all_nodes created_world ! 0) @ [DIS 1] \<and>
   1 < length (all_nodes joined_world) \<and>
   inbox (all_nodes (trickle_timer joined_world 0 (1 / 2)) ! 1) =
     inbox (all_nodes joined_world ! 1) \<and>
   in_flight (trickle_timer created_world 1 (1 / 2)) = in_flight created_world \<and>
   neighbors (all_nodes joined_world ! 0) \<noteq> [] \<and>
   trickle_probe joined_world 0 = joined_world \<and>
   neighbors (all_nodes created_world ! 1) = [] \<and>
   trickle_probe created_world 1 = send_dis created_world 1 \<and>
   0 < length (all_nodes created_world) \<and>
   inbox (all_nodes (send_dis created_world 1) ! 0) =
     inbox (all_nodes created_world ! 0) @ [DIS 1] \<and>
   (1 < length (all_nodes created_world) \<and> (0::real) \<le> 1 / 2 \<and> (1 / 2 ::real) < 1 \<and>
    0 \<le> Imin (all_nodes created_world ! 1) \<and>
    Imin (all_nodes created_world ! 1) \<le> I_cur (all_nodes created_world ! 1) \<and>
    Imin (all_nodes created_world ! 1) \<le> Imax (all_nodes created_world ! 1)) \<and>
   I_cur (all_nodes (trickle_timer created_world 1 (1 / 2)) ! 1) = 2 \<and>
   t_cur (all_nodes (trickle_timer created_world 1 (1 / 2)) ! 1) = 3 / 2 \<and>
   (Imin (all_nodes (trickle_timer created_world 1 (1 / 2)) ! 1)
      \<le> I_cur (all_nodes (trickle_timer created_world 1 (1 / 2)) ! 1) \<and>
    I_cur (all_nodes (trickle_timer created_world 1 (1 / 2)) ! 1)
      \<le> Imax (all_nodes (trickle_timer created_world 1 (1 / 2)) ! 1) \<and>
    real_of_int (Imin (all_nodes (trickle_timer created_world 1 (1 / 2)) ! 1))
      \<le> t_cur (all_nodes (trickle_timer created_world 1 (1 / 2)) ! 1) \<and>
    t_cur (all_nodes (trickle_timer created_world 1 (1 / 2)) ! 1)
      \<le> real_of_int (I_cur (all_nodes (trickle_timer created_world 1 (1 / 2)) ! 1))) \<and>
   run (init_world ieee_double (Some new_monitor) 100 6 100) joined_events = Some joined_world \<and>
   (Imin (all_nodes joined_world ! 1) \<le> I_cur (all_nodes joined_world ! 1) \<and>
    I_cur (all_nodes joined_world ! 1) \<le> Imax (all_nodes joined_world ! 1) \<and>
    real_of_int (Imin (all_nodes joined_world ! 1)) \<le> t_cur (all_nodes joined_world ! 1) \<and>
    t_cur (all_nodes joined_world ! 1) \<le> real_of_int (I_cur (all_nodes joined_world ! 1)))"
proof -
  note t1 = trickle_timer_backoff [where w = joined_world and self = 0 and r = "1 / 2"
      and fl = ieee_double and mon = "Some new_monitor" and nn = 100 and md = 6 and cr = 100
      and es = joined_events and v = joined_world]
  note t2 = trickle_timer_backoff [where w = created_world and self = 1 and r = "1 / 2"
      and fl = ieee_double and mon = "Some new_monitor" and nn = 100 and md = 6 and cr = 100
      and es = joined_events and v = joined_world]
  have r: "run (init_world ieee_double (Some new_monitor) 100 6 100) joined_events = Some joined_world"
    by (rule run_joined [unfolded cfg_world_def])
  have m: "all_nodes joined_world ! 1 \<in> set (all_nodes joined_world)"
    by (simp add: joined_world_def)
  have n0: "neighbors (all_nodes joined_world ! 0) \<noteq> []"
    by (simp add: joined_world_def)
  have n1: "neighbors (all_nodes created_world ! 1) = []"
    by (simp add: created_world_def)
  have l0: "0 < length (all_nodes created_world)" and l1: "1 < length (all_nodes created_world)"
    by (simp_all add: created_world_def)
  have h: "1 < length (all_nodes created_world) \<and> (0::real) \<le> 1 / 2 \<and> (1 / 2 ::real) < 1 \<and>
    0 \<le> Imin (all_nodes created_world ! 1) \<and>
    Imin (all_nodes created_world ! 1) \<le> I_cur (all_nodes created_world ! 1) \<and>
    Imin (all_nodes created_world ! 1) \<le> Imax (all_nodes created_world ! 1)"
    by (simp add: created_world_def)
  have f: "1 < length (all_nodes created_world) \<and> (0::real) \<le> 1 / 2 \<and> (1 / 2 ::real) < 1"
    by (simp add: created_world_def)
  have lj: "1 < length (all_nodes joined_world)"
    by (simp add: joined_world_def)
  have probe: "(if neighbors (all_nodes created_world ! 1) = [] \<and> (0::nat) \<noteq> 1 \<and>
        calculate_distance (arith created_world) (all_nodes created_world ! 1)
          (position (all_nodes created_world ! 0))
          \<le> CONNECTION_RANGE created_world then [DIS 1] else []) = [DIS 1]"
    by (simp add: created_world_def distances)
  have quiet: "inbox (all_nodes joined_world ! 1) @
      (if neighbors (all_nodes joined_world ! 0) = [] \<and> (1::nat) \<noteq> 0 \<and>
        calculate_distance (arith joined_world) (all_nodes joined_world ! 0)
          (position (all_nodes joined_world ! 1))
          \<le> CONNECTION_RANGE joined_world then [DIS 0] else []) =
      inbox (all_nodes joined_world ! 1)"
    by (simp add: joined_world_def)
  note a1 = t2 [THEN conjunct1, rule_format, OF f]
  note a2 = t2 [THEN conjunct2, THEN conjunct1, rule_format, OF l0, unfolded probe]
  note a3 = t1 [THEN conjunct2, THEN conjunct1, rule_format, OF lj, unfolded quiet]
  note a4 = t2 [THEN conjunct2, THEN conjunct2, THEN conjunct1]
  note t1 = t1 [THEN conjunct2, THEN conjunct2, THEN conjunct2]
  note t2 = t2 [THEN conjunct2, THEN conjunct2, THEN conjunct2]
  have range: "(if (0::nat) \<noteq> 1 \<and>
        calculate_distance (arith created_world) (all_nodes created_world ! 1) (position (all_nodes created_world ! 0))
          \<le> CONNECTION_RANGE created_world then [DIS 1] else []) = [DIS 1]"
    by (simp add: created_world_def distances)
  have vals: "min (2 * I_cur (all_nodes created_world ! 1)) (Imax (all_nodes created_world ! 1)) = 2"
    "uniform (real_of_int (Imin (all_nodes created_world ! 1))) (real_of_int 2) (1 / 2) = 3 / 2"
    by (simp_all add: created_world_def uniform_def)
  note c1 = t1 [THEN conjunct1, rule_format, OF n0]
  note c2 = t2 [THEN conjunct2, THEN conjunct1, rule_format, OF n1]
  note c3 = t2 [THEN conjunct2, THEN conjunct2, THEN conjunct1, rule_format, OF l0,
      unfolded range]
  note c4 = t2 [THEN conjunct2, THEN conjunct2, THEN conjunct2, THEN conjunct1, rule_format,
      OF l1]
  note c5 = t2 [THEN conjunct2, THEN conjunct2, THEN conjunct2, THEN conjunct2, THEN conjunct1,
      rule_format, OF h]
  note c6 = t2 [THEN conjunct2, THEN conjunct2, THEN conjunct2, THEN conjunct2, THEN conjunct2,
      rule_format, OF r m]
  from c4 have I: "I_cur (all_nodes (trickle_timer created_world 1 (1 / 2)) ! 1) = 2"
    unfolding vals by simp
  from c4 have T: "t_cur (all_nodes (trickle_timer created_world 1 (1 / 2)) ! 1) = 3 / 2"
    unfolding I vals by simp
  from a1 a2 a3 a4 c1 c2 c3 c5 c6 I T n0 n1 l0 lj f h r show ?thesis by blast
qed

section \<open>Parent selection\<close>

lemma send_dao_adopt:
  assumes "self < length (all_nodes w)"
  shows "send_dao (adopt w self sender) self =
     Some (inbox_append sender
            (DAO self (derive (prefix (all_nodes w ! sender)) (node_num (all_nodes w ! self))))
            (notify_control (adopt w self sender)))"
  using assms by (simp add: send_dao_def adopt_nodes)

lemma adopt_result:
  assumes "self < length (all_nodes w)"
  shows "\<exists>w'. send_dao (adopt w self sender) self = Some w' \<and>
     parent (all_nodes w' ! self) = Some sender \<and>
     prefix (all_nodes w' ! self) =
       derive (prefix (all_nodes w ! sender)) (node_num (all_nodes w ! self)) \<and>
     (sender < length (all_nodes w) \<and> sender \<noteq> self \<longrightarrow>
        prefix (all_nodes w' ! sender) = prefix (all_nodes w ! sender) \<and>
        inbox (all_nodes w' ! sender) =
          inbox (all_nodes w ! sender) @ [DAO self (prefix (all_nodes w' ! self))])"
  using assms by (auto simp: send_dao_adopt adopt_nodes nth_list_update world_simps)

text \<open>
  Claim C5, as stated of the distances between the positions, fails at a tie. In the run
  \<open>tie_events\<close> node 1 has the root as parent and lies at exactly the same distance from
  the root and from node 2. The code compares the two distances as it computes them, in
  binary64: 24.99999999999999 to node 2 and 24.999999999999993 to the root. The first is
  the smaller, so the DIO of node 2 makes node 1 switch to node 2.
\<close>

theorem receive_dio_tie_counterexample:
  "run cfg_world tie_events = Some tie_world \<and>
   position (all_nodes tie_world ! 1) = (double 25.0318, double 67.9707) \<and>
   position (all_nodes tie_world ! 0) = (double 32.0318, double 43.9707) \<and>
   position (all_nodes tie_world ! 2) = (double 40.0318, double 47.9707) \<and>
   \<not> is_root (all_nodes tie_world ! 1) \<and> parent (all_nodes tie_world ! 1) = Some 0 \<and>
   euclidean_distance (all_nodes tie_world ! 1) (position (all_nodes tie_world ! 2)) =
     euclidean_distance (all_nodes tie_world ! 1) (position (all_nodes tie_world ! 0)) \<and>
   calculate_distance (arith tie_world) (all_nodes tie_world ! 1)
     (position (all_nodes tie_world ! 2)) = 7036874417766397 / 2 ^ 48 \<and>
   calculate_distance (arith tie_world) (all_nodes tie_world ! 1)
     (position (all_nodes tie_world ! 0)) = 7036874417766398 / 2 ^ 48 \<and>
   receive_dio tie_world 1 2 \<noteq> None \<and>
   parent (all_nodes (the (receive_dio tie_world 1 2)) ! 1) = Some 2 \<and>
   fire tie_world (Deliver 1) \<noteq> None \<and>
   parent (all_nodes (the (fire tie_world (Deliver 1))) ! 1) = Some 2"
proof -
  have pos: "position (all_nodes tie_world ! 1) = tie_self_pos"
    "position (all_nodes tie_world ! 0) = tie_parent_pos"
    "position (all_nodes tie_world ! 2) = tie_sender_pos"
    "arith tie_world = ieee_double"
    by (simp_all add: tie_world_def)
  have eq: "euclidean_distance (all_nodes tie_world ! 1) (position (all_nodes tie_world ! 2)) =
     euclidean_distance (all_nodes tie_world ! 1) (position (all_nodes tie_world ! 0))"
    unfolding euclidean_distance_def pos tie_positions by (simp add: power2_eq_square)
  have "receive_dio tie_world 1 2 \<noteq> None \<and>
      parent (all_nodes (the (receive_dio tie_world 1 2)) ! 1) = Some 2"
    by (simp add: tie_world_def eval_defs tie_distances)
  moreover have "fire tie_world (Deliver 1) \<noteq> None \<and>
      parent (all_nodes (the (fire tie_world (Deliver 1))) ! 1) = Some 2"
    by (simp add: tie_world_def eval_defs tie_distances)
  moreover have "\<not> is_root (all_nodes tie_world ! 1) \<and> parent (all_nodes tie_world ! 1) = Some 0"
    by (simp add: tie_world_def)
  ultimately show ?thesis
    using run_tie eq tie_distance_self_sender[OF pos(1)] tie_distance_self_parent[OF pos(1)]
    unfolding pos tie_self_pos_def tie_parent_pos_def tie_sender_pos_def
    by simp
qed

text \<open>
  Claim C5, amended: the distances are the ones that \<open>calculate_distance\<close> computes, in
  whatever arithmetic the world has. A root leaves the world as it was on a DIO. A
  non-root node without a parent takes the sender as parent whatever the distances,
  derives its prefix from the prefix of the sender and appends a DAO with the new prefix
  to the inbox of the sender. A non-root node with a parent does the same when the
  computed distance to the sender is strictly less than the computed distance to the
  parent and the parent of the sender is not this node, and leaves the world as it was
  otherwise; a sender whose computed distance equals that of the parent changes nothing.
\<close>

theorem receive_dio_parent_selection:
  "(is_root (all_nodes w ! self) \<longrightarrow> receive_dio w self sender = Some w) \<and>
   (self < length (all_nodes w) \<and> \<not> is_root (all_nodes w ! self) \<and>
    parent (all_nodes w ! self) = None \<longrightarrow>
      (\<exists>w'. receive_dio w self sender = Some w' \<and>
         parent (all_nodes w' ! self) = Some sender \<and>
         prefix (all_nodes w' ! self) =
           derive (prefix (all_nodes w ! sender)) (node_num (all_nodes w ! self)) \<and>
         (sender < length (all_nodes w) \<and> sender \<noteq> self \<longrightarrow>
            inbox (all_nodes w' ! sender) =
              inbox (all_nodes w ! sender) @ [DAO self (prefix (all_nodes w' ! self))]))) \<and>
   (self < length (all_nodes w) \<and> \<not> is_root (all_nodes w ! self) \<and>
    parent (all_nodes w ! self) = Some cur \<and>
    calculate_distance (arith w) (all_nodes w ! self) (position (all_nodes w ! sender))
      < calculate_distance (arith w) (all_nodes w ! self) (position (all_nodes w ! cur)) \<and>
    parent (all_nodes w ! sender) \<noteq> Some self \<longrightarrow>
      (\<exists>w'. receive_dio w self sender = Some w' \<and>
         parent (all_nodes w' ! self) = Some sender \<and>
         prefix (all_nodes w' ! self) =
           derive (prefix (all_nodes w ! sender)) (node_num (all_nodes w ! self)) \<and>
         (sender < length (all_nodes w) \<and> sender \<noteq> self \<longrightarrow>
            inbox (all_nodes w' ! sender) =
              inbox (all_nodes w ! sender) @ [DAO self (prefix (all_nodes w' ! self))]))) \<and>
   (\<not> is_root (all_nodes w ! self) \<and> parent (all_nodes w ! self) = Some cur \<and>
    \<not> (calculate_distance (arith w) (all_nodes w ! self) (position (all_nodes w ! sender))
         < calculate_distance (arith w) (all_nodes w ! self) (position (all_nodes w ! cur)) \<and>
       parent (all_nodes w ! sender) \<noteq> Some self) \<longrightarrow>
      receive_dio w self sender = Some w) \<and>
   (parent (all_nodes w ! self) = Some cur \<and>
    calculate_distance (arith w) (all_nodes w ! self) (position (all_nodes w ! sender))
      = calculate_distance (arith w) (all_nodes w ! self) (position (all_nodes w ! cur)) \<longrightarrow>
      receive_dio w self sender = Some w)"
proof (intro conjI impI)
  assume "self < length (all_nodes w) \<and> \<not> is_root (all_nodes w ! self) \<and>
    parent (all_nodes w ! self) = None"
  then have v: "self < length (all_nodes w)"
    and r: "receive_dio w self sender = send_dao (adopt w self sender) self"
    by (simp_all add: receive_dio_def)
  from adopt_result[OF v, of sender]
  show "\<exists>w'. receive_dio w self sender = Some w' \<and>
         parent (all_nodes w' ! self) = Some sender \<and>
         prefix (all_nodes w' ! self) =
           derive (prefix (all_nodes w ! sender)) (node_num (all_nodes w ! self)) \<and>
         (sender < length (all_nodes w) \<and> sender \<noteq> self \<longrightarrow>
            inbox (all_nodes w' ! sender) =
              inbox (all_nodes w ! sender) @ [DAO self (prefix (all_nodes w' ! self))])"
    unfolding r by blast
next
  assume "self < length (all_nodes w) \<and> \<not> is_root (all_nodes w ! self) \<and>
    parent (all_nodes w ! self) = Some cur \<and>
    calculate_distance (arith w) (all_nodes w ! self) (position (all_nodes w ! sender))
      < calculate_distance (arith w) (all_nodes w ! self) (position (all_nodes w ! cur)) \<and>
    parent (all_nodes w ! sender) \<noteq> Some self"
  then have v: "self < length (all_nodes w)"
    and r: "receive_dio w self sender = send_dao (adopt w self sender) self"
    by (simp_all add: receive_dio_def)
  from adopt_result[OF v, of sender]
  show "\<exists>w'. receive_dio w self sender = Some w' \<and>
         parent (all_nodes w' ! self) = Some sender \<and>
         prefix (all_nodes w' ! self) =
           derive (prefix (all_nodes w ! sender)) (node_num (all_nodes w ! self)) \<and>
         (sender < length (all_nodes w) \<and> sender \<noteq> self \<longrightarrow>
            inbox (all_nodes w' ! sender) =
              inbox (all_nodes w ! sender) @ [DAO self (prefix (all_nodes w' ! self))])"
    unfolding r by blast
qed (auto simp: receive_dio_def Let_def)

theorem receive_dio_parent_selection_witness:
  "is_root (all_nodes joined_world ! 0) \<and>
   receive_dio joined_world 0 1 = Some joined_world \<and>
   1 < length (all_nodes created_world) \<and> \<not> is_root (all_nodes created_world ! 1) \<and>
   parent (all_nodes created_world ! 1) = None \<and>
   receive_dio created_world 1 0 \<noteq> None \<and>
   parent (all_nodes (the (receive_dio created_world 1 0)) ! 1) = Some 0 \<and>
   prefix (all_nodes (the (receive_dio created_world 1 0)) ! 1) = ''2001:db8::1:01'' \<and>
   inbox (all_nodes (the (receive_dio created_world 1 0)) ! 0) = [DAO 1 ''2001:db8::1:01''] \<and>
   1 < length (all_nodes settled_world) \<and> \<not> is_root (all_nodes settled_world ! 1) \<and>
   parent (all_nodes settled_world ! 1) = Some 0 \<and>
   calculate_distance (arith settled_world) (all_nodes settled_world ! 1) (position (all_nodes settled_world ! 2))
     < calculate_distance (arith settled_world) (all_nodes settled_world ! 1) (position (all_nodes settled_world ! 0)) \<and>
   parent (all_nodes settled_world ! 2) \<noteq> Some 1 \<and>
   receive_dio settled_world 1 2 \<noteq> None \<and>
   parent (all_nodes (the (receive_dio settled_world 1 2)) ! 1) = Some 2 \<and>
   prefix (all_nodes (the (receive_dio settled_world 1 2)) ! 1) = ''2001:db8::1:02:01'' \<and>
   inbox (all_nodes (the (receive_dio settled_world 1 2)) ! 2) =
     [DAO 1 ''2001:db8::1:02:01''] \<and>
   \<not> is_root (all_nodes settled_world ! 2) \<and> parent (all_nodes settled_world ! 2) = Some 0 \<and>
   \<not> calculate_distance (arith settled_world) (all_nodes settled_world ! 2) (position (all_nodes settled_world ! 1))
       < calculate_distance (arith settled_world) (all_nodes settled_world ! 2) (position (all_nodes settled_world ! 0)) \<and>
   receive_dio settled_world 2 1 = Some settled_world \<and>
   calculate_distance (arith settled_world) (all_nodes settled_world ! 1) (position (all_nodes settled_world ! 3))
     = calculate_distance (arith settled_world) (all_nodes settled_world ! 1) (position (all_nodes settled_world ! 0)) \<and>
   receive_dio settled_world 1 3 = Some settled_world"
  using receive_dio_parent_selection [where w = joined_world and self = 0 and sender = 1]
    receive_dio_parent_selection [where w = created_world and self = 1 and sender = 0]
    receive_dio_parent_selection [where w = settled_world and self = 1 and sender = 2
      and cur = 0]
    receive_dio_parent_selection [where w = settled_world and self = 2 and sender = 1
      and cur = 0]
    receive_dio_parent_selection [where w = settled_world and self = 1 and sender = 3
      and cur = 0]
  by (simp add: joined_world_def created_world_def settled_world_def eval_defs)

section \<open>Attack cycles\<close>

lemma possible_victims_set:
  "set (possible_victims w attacker) =
     {i. i < length (all_nodes w) \<and> i \<noteq> attacker \<and> downward_routes (all_nodes w ! i) \<noteq> []}"
  by (auto simp: possible_victims_def)

text \<open>
  Claim C9. The victims of an attack cycle are the nodes other than the attacker with a
  non-empty table of downward routes. The cycle calls the DAO handler of the chosen victim
  with the forged prefix and the attacker as child, and counts the spoof; when no node
  other than the attacker has a downward route, the cycle changes nothing.
\<close>

theorem launch_cycle_eligibility:
  "set (possible_victims w attacker) =
     {i. i < length (all_nodes w) \<and> i \<noteq> attacker \<and> downward_routes (all_nodes w ! i) \<noteq> []} \<and>
   (k < length (possible_victims w attacker) \<longrightarrow>
      launch_cycle w attacker count k fake_num =
        (receive_dao w (possible_victims w attacker ! k) (fake_prefix fake_num) attacker,
         count + 1) \<and>
      possible_victims w attacker ! k < length (all_nodes w) \<and>
      possible_victims w attacker ! k \<noteq> attacker \<and>
      downward_routes (all_nodes w ! (possible_victims w attacker ! k)) \<noteq> []) \<and>
   ((\<forall>i<length (all_nodes w). i \<noteq> attacker \<longrightarrow> downward_routes (all_nodes w ! i) = []) \<longrightarrow>
      launch_cycle w attacker count k fake_num = (w, count))"
proof (intro conjI impI)
  show "set (possible_victims w attacker) =
     {i. i < length (all_nodes w) \<and> i \<noteq> attacker \<and> downward_routes (all_nodes w ! i) \<noteq> []}"
    by (rule possible_victims_set)
next
  assume k: "k < length (possible_victims w attacker)"
  then have ne: "possible_victims w attacker \<noteq> []" by auto
  then show "launch_cycle w attacker count k fake_num =
        (receive_dao w (possible_victims w attacker ! k) (fake_prefix fake_num) attacker,
         count + 1)"
    by (simp add: launch_cycle_def)
  from k have "possible_victims w attacker ! k \<in> set (possible_victims w attacker)"
    by (rule nth_mem)
  then show "possible_victims w attacker ! k < length (all_nodes w)"
    and "possible_victims w attacker ! k \<noteq> attacker"
    and "downward_routes (all_nodes w ! (possible_victims w attacker ! k)) \<noteq> []"
    unfolding possible_victims_set by simp_all
next
  assume "\<forall>i<length (all_nodes w). i \<noteq> attacker \<longrightarrow> downward_routes (all_nodes w ! i) = []"
  then have "set (possible_victims w attacker) = {}"
    unfolding possible_victims_set by auto
  then show "launch_cycle w attacker count k fake_num = (w, count)"
    by (simp add: launch_cycle_def)
qed

theorem launch_cycle_eligibility_witness:
  "possible_victims joined_world 1 = [0] \<and>
   0 < length (possible_victims joined_world 1) \<and>
   launch_cycle joined_world 1 0 0 1000 =
     (receive_dao joined_world (possible_victims joined_world 1 ! 0) (fake_prefix 1000) 1,
      0 + 1) \<and>
   fake_prefix 1000 = ''2001:db8::3e8'' \<and>
   possible_victims joined_world 1 ! 0 \<noteq> 1 \<and>
   downward_routes (all_nodes joined_world ! (possible_victims joined_world 1 ! 0)) \<noteq> [] \<and>
   downward_routes (all_nodes created_world ! 0) = [] \<and>
   length (all_nodes created_world) = 2 \<and>
   launch_cycle created_world 1 0 0 1000 = (created_world, 0)"
proof -
  note t1 = launch_cycle_eligibility [where w = joined_world and attacker = 1 and count = 0
      and k = 0 and fake_num = 1000]
  note t2 = launch_cycle_eligibility [where w = created_world and attacker = 1 and count = 0
      and k = 0 and fake_num = 1000]
  have pv: "possible_victims joined_world 1 = [0]"
    by (simp add: joined_world_def possible_victims_def upt_conv_Cons)
  then have k: "0 < length (possible_victims joined_world 1)" by simp
  have fp: "fake_prefix 1000 = ''2001:db8::3e8''"
    by (simp add: fake_prefix_def hex.simps hex_digit_def)
  have e: "downward_routes (all_nodes created_world ! 0) = []"
    and l: "length (all_nodes created_world) = 2"
    by (simp_all add: created_world_def)
  have none: "\<forall>i<length (all_nodes created_world). i \<noteq> 1 \<longrightarrow>
      downward_routes (all_nodes created_world ! i) = []"
    unfolding l using e by (auto simp: less_Suc_eq numeral_2_eq_2)
  from t1 [THEN conjunct2, THEN conjunct1, rule_format, OF k]
    t2 [THEN conjunct2, THEN conjunct2, THEN mp, OF none] pv k fp e l
  show ?thesis by blast
qed

section \<open>Neighbours\<close>

lemma same_nbrs_refl: "same_nbrs w w"
  by (simp add: same_nbrs_def)

lemma same_nbrs_upd_node:
  "(\<And>n. neighbors (f n) = neighbors n) \<Longrightarrow> same_nbrs w (upd_node i f w') = same_nbrs w w'"
  by (simp add: same_nbrs_def upd_node_simps map_upd_field)

lemma same_nbrs_steps:
  "same_nbrs w (inbox_append i m w') = same_nbrs w w'"
  "same_nbrs w (notify g w') = same_nbrs w w'"
  "same_nbrs w (notify_control w') = same_nbrs w w'"
  "same_nbrs w (send_packet w' self pkt h) = same_nbrs w w'"
  "same_nbrs w (send_dao_ack w' self c p st) = same_nbrs w w'"
  "same_nbrs w (adopt w' self sender) = same_nbrs w w'"
  by (simp_all add: same_nbrs_def world_simps map_upd_field adopt_nodes)

lemma same_nbrs_discover_loop:
  "same_nbrs w (discover_loop self js w') = same_nbrs w w'"
  by (induction js arbitrary: w') (simp_all add: same_nbrs_steps)

lemma same_nbrs_send_dis_loop:
  "same_nbrs w (send_dis_loop self js w') = same_nbrs w w'"
  by (induction js arbitrary: w') (simp_all add: same_nbrs_steps)

lemma same_nbrs_send_dio_loop:
  "same_nbrs w (send_dio_loop self js w') = same_nbrs w w'"
  by (induction js arbitrary: w') (simp_all add: same_nbrs_steps)

lemma same_nbrs_receive_dio:
  "receive_dio w' self sender = Some w'' \<Longrightarrow> same_nbrs w w'' = same_nbrs w w'"
  by (simp add: receive_dio_def send_dao_def Let_def split: if_splits option.splits)
     (auto simp: same_nbrs_steps)

lemma same_nbrs_receive_dao:
  "same_nbrs w (receive_dao w' self p c) = same_nbrs w w'"
  by (simp add: receive_dao_def Let_def same_nbrs_steps same_nbrs_upd_node split: option.split)

lemma same_nbrs_handle_packet:
  "same_nbrs w (handle_packet w' self pkt) = same_nbrs w w'"
  by (simp add: handle_packet_def Let_def same_nbrs_steps split: option.split)

lemma same_nbrs_trickle_timer:
  "same_nbrs w (trickle_timer w' self r) = same_nbrs w w'"
  by (simp add: trickle_timer_def trickle_update_def trickle_probe_def send_dis_def Let_def
      same_nbrs_upd_node same_nbrs_send_dis_loop)

lemma nbr_ok_same: "same_nbrs w w' \<Longrightarrow> nbr_ok w' = nbr_ok w"
  by (simp add: nbr_ok_def same_nbrs_def)

lemma nbrs_okD:
  "nbrs_ok nbs \<Longrightarrow> a < length nbs \<Longrightarrow> b \<in> set (nbs ! a) \<Longrightarrow>
   b < length nbs \<and> b \<noteq> a \<and> a \<in> set (nbs ! b)"
  unfolding nbrs_ok_def by blast

lemma nbrs_okI:
  "(\<And>a b. a < length nbs \<Longrightarrow> b \<in> set (nbs ! a) \<Longrightarrow>
      b < length nbs \<and> b \<noteq> a \<and> a \<in> set (nbs ! b)) \<Longrightarrow> nbrs_ok nbs"
  unfolding nbrs_ok_def by blast

lemma nbrs_ok_handshake:
  assumes ok: "nbrs_ok nbs" and v: "self < length nbs" "sender < length nbs" "sender \<noteq> self"
  shows "nbrs_ok (nbs[self := nbs ! self @ [sender], sender := nbs ! sender @ [self]])"
proof -
  define nbs' where "nbs' = nbs[self := nbs ! self @ [sender], sender := nbs ! sender @ [self]]"
  have len: "length nbs' = length nbs" by (simp add: nbs'_def)
  have at_sender: "nbs' ! sender = nbs ! sender @ [self]"
    using v by (simp add: nbs'_def)
  have at_self: "nbs' ! self = nbs ! self @ [sender]"
    using v by (simp add: nbs'_def)
  have other: "nbs' ! a = nbs ! a" if "a \<noteq> self" "a \<noteq> sender" for a
    using that by (simp add: nbs'_def)
  have sub: "b \<in> set (nbs' ! a)" if "b \<in> set (nbs ! a)" for a b
    using that at_sender at_self other[of a]
    by (cases "a = self"; cases "a = sender") simp_all
  have "nbrs_ok nbs'"
  proof (rule nbrs_okI)
    fix a b
    assume a: "a < length nbs'" and b: "b \<in> set (nbs' ! a)"
    show "b < length nbs' \<and> b \<noteq> a \<and> a \<in> set (nbs' ! b)"
    proof (cases "b \<in> set (nbs ! a)")
      case True
      from a len have "a < length nbs" by simp
      from nbrs_okD[OF ok this True]
      have "b < length nbs" "b \<noteq> a" "a \<in> set (nbs ! b)" by simp_all
      then show ?thesis
        unfolding len by (intro conjI sub)
    next
      case False
      with b at_sender at_self other[of a]
      have "(a = sender \<and> b = self) \<or> (a = self \<and> b = sender)"
        by (cases "a = self"; cases "a = sender") simp_all
      then show ?thesis
      proof
        assume "a = sender \<and> b = self"
        with v at_self show ?thesis unfolding len by simp
      next
        assume "a = self \<and> b = sender"
        with v at_sender show ?thesis unfolding len by simp
      qed
    qed
  qed
  then show ?thesis
    unfolding nbs'_def .
qed

lemma nbrs_ok_half_handshake:
  assumes ok: "nbrs_ok nbs" and v: "self < length nbs" "sender < length nbs" "sender \<noteq> self"
    and mutual: "self \<in> set (nbs ! sender)"
  shows "nbrs_ok (nbs[self := nbs ! self @ [sender]])"
proof -
  define nbs' where "nbs' = nbs[self := nbs ! self @ [sender]]"
  have len: "length nbs' = length nbs" by (simp add: nbs'_def)
  have at_self: "nbs' ! self = nbs ! self @ [sender]"
    using v by (simp add: nbs'_def)
  have other: "nbs' ! a = nbs ! a" if "a \<noteq> self" for a
    using that by (simp add: nbs'_def)
  have sub: "b \<in> set (nbs' ! a)" if "b \<in> set (nbs ! a)" for a b
    using that at_self other[of a] by (cases "a = self") simp_all
  have "nbrs_ok nbs'"
  proof (rule nbrs_okI)
    fix a b
    assume a: "a < length nbs'" and b: "b \<in> set (nbs' ! a)"
    show "b < length nbs' \<and> b \<noteq> a \<and> a \<in> set (nbs' ! b)"
    proof (cases "b \<in> set (nbs ! a)")
      case True
      from a len have "a < length nbs" by simp
      from nbrs_okD[OF ok this True]
      have "b < length nbs" "b \<noteq> a" "a \<in> set (nbs ! b)" by simp_all
      then show ?thesis
        unfolding len by (intro conjI sub)
    next
      case False
      with b at_self other[of a] have "a = self \<and> b = sender"
        by (cases "a = self") simp_all
      with v sub[OF mutual] show ?thesis unfolding len by simp
    qed
  qed
  then show ?thesis
    unfolding nbs'_def .
qed

lemma receive_dis_nbrs:
  assumes "self < length (all_nodes w)" "sender < length (all_nodes w)" "sender \<noteq> self"
  shows "map neighbors (all_nodes (receive_dis w self sender)) =
    (let nbs = map neighbors (all_nodes w) in
     if sender \<notin> set (nbs ! self) \<and>
        calculate_distance (arith w) (all_nodes w ! self) (position (all_nodes w ! sender))
          \<le> CONNECTION_RANGE w
     then if self \<notin> set (nbs ! sender)
          then nbs[self := nbs ! self @ [sender], sender := nbs ! sender @ [self]]
          else nbs[self := nbs ! self @ [sender]]
     else nbs)"
  using assms
  by (simp add: receive_dis_def Let_def world_simps map_update map_upd_field nth_list_update
      list_update_same_conv)

lemma nbr_ok_receive_dis:
  assumes "nbr_ok w" "self < length (all_nodes w)" "sender < length (all_nodes w)"
    "sender \<noteq> self"
  shows "nbr_ok (receive_dis w self sender)"
  unfolding nbr_ok_def receive_dis_nbrs[OF assms(2-4)] Let_def
  using assms nbrs_ok_handshake[of "map neighbors (all_nodes w)" self sender]
    nbrs_ok_half_handshake[of "map neighbors (all_nodes w)" self sender]
  by (simp add: nbr_ok_def)

lemma dis_ok_notify:
  "dis_ok (notify g w) = dis_ok w"
  "dis_ok (notify_control w) = dis_ok w"
  by (simp_all add: dis_ok_def world_simps)

lemma dis_ok_upd_node:
  assumes "dis_ok w"
    and "i < length (all_nodes w) \<Longrightarrow>
         set (inbox (f (all_nodes w ! i))) \<subseteq> set (inbox (all_nodes w ! i))"
  shows "dis_ok (upd_node i f w)"
proof -
  have "s < length (all_nodes w) \<and> s \<noteq> j"
    if j: "j < length (all_nodes w)"
      and s: "DIS s \<in> set (inbox ((all_nodes w)[i := f (all_nodes w ! i)] ! j))" for j s
  proof -
    from j s assms(2) have "DIS s \<in> set (inbox (all_nodes w ! j))"
      by (cases "j = i") auto
    with assms(1) j show ?thesis unfolding dis_ok_def by blast
  qed
  moreover from assms(1) have "\<forall>x\<in>set (in_flight w). \<forall>s. snd x \<noteq> DIS s"
    unfolding dis_ok_def by blast
  ultimately show ?thesis
    unfolding dis_ok_def upd_node_simps by simp
qed

lemma dis_ok_inbox_append:
  assumes "dis_ok w" and "\<And>s. m = DIS s \<Longrightarrow> s < length (all_nodes w) \<and> s \<noteq> i"
  shows "dis_ok (inbox_append i m w)"
proof -
  have "s < length (all_nodes w) \<and> s \<noteq> j"
    if j: "j < length (all_nodes w)"
      and s: "DIS s \<in> set (inbox (all_nodes (inbox_append i m w) ! j))" for j s
  proof -
    from s have "DIS s \<in> set (inbox (all_nodes w ! j)) \<or> (m = DIS s \<and> j = i)"
      by (auto simp: inbox_append_inbox split: if_splits)
    with assms j show ?thesis unfolding dis_ok_def by blast
  qed
  moreover from assms(1) have "\<forall>x\<in>set (in_flight w). \<forall>s. snd x \<noteq> DIS s"
    unfolding dis_ok_def by blast
  ultimately show ?thesis
    unfolding dis_ok_def by (simp add: inbox_append_fields inbox_append_simps(2))
qed

lemma dis_ok_queue:
  "dis_ok w \<Longrightarrow> dis_ok (send_packet w self pkt h)"
  "dis_ok w \<Longrightarrow> dis_ok (send_dao_ack w self c p st)"
  unfolding dis_ok_def by (auto simp: world_simps)

lemma dis_ok_adopt: "dis_ok w \<Longrightarrow> dis_ok (adopt w self sender)"
  unfolding adopt_def Let_def by (intro dis_ok_upd_node) simp_all

lemma loop_lengths:
  "length (all_nodes (discover_loop self js w)) = length (all_nodes w)"
  "length (all_nodes (send_dio_loop self js w)) = length (all_nodes w)"
  by (induction js arbitrary: w; simp add: inbox_append_fields notify_control_simps)+

lemma dis_ok_discover_loop:
  "dis_ok w \<Longrightarrow> self < length (all_nodes w) \<Longrightarrow> dis_ok (discover_loop self js w)"
proof (induction js arbitrary: w)
  case Nil
  then show ?case by simp
next
  case (Cons i js)
  have "dis_ok (inbox_append i (DIS self) w)" if "i \<noteq> self"
    by (rule dis_ok_inbox_append) (use Cons.prems that in auto)
  with Cons.prems show ?case
    by (auto intro!: Cons.IH simp: inbox_append_fields)
qed

lemma dis_ok_send_dis_loop:
  "dis_ok w \<Longrightarrow> self < length (all_nodes w) \<Longrightarrow> dis_ok (send_dis_loop self js w)"
proof (induction js arbitrary: w)
  case Nil
  then show ?case by simp
next
  case (Cons i js)
  have "dis_ok (inbox_append i (DIS self) (notify_control w))" if "i \<noteq> self"
    by (rule dis_ok_inbox_append)
      (use Cons.prems that in \<open>auto simp: dis_ok_notify notify_control_simps\<close>)
  with Cons.prems show ?case
    by (auto intro!: Cons.IH simp: inbox_append_fields notify_control_simps)
qed

lemma dis_ok_send_dio_loop:
  "dis_ok w \<Longrightarrow> dis_ok (send_dio_loop self js w)"
proof (induction js arbitrary: w)
  case Nil
  then show ?case by simp
next
  case (Cons i js)
  have "dis_ok (inbox_append i (DIO self) (notify_control w))"
    by (rule dis_ok_inbox_append) (use Cons.prems in \<open>simp_all add: dis_ok_notify\<close>)
  with Cons.prems show ?case
    by (auto intro!: Cons.IH)
qed

lemma dis_ok_receive_dis:
  assumes "dis_ok w"
  shows "dis_ok (receive_dis w self sender)"
proof -
  let ?w1 = "upd_node self (\<lambda>n. n\<lparr>neighbors := neighbors n @ [sender]\<rparr>) w"
  let ?w2 = "upd_node sender (\<lambda>n. n\<lparr>neighbors := neighbors n @ [self]\<rparr>) ?w1"
  have 1: "dis_ok ?w1" by (rule dis_ok_upd_node[OF assms]) simp
  have 2: "dis_ok ?w2" by (rule dis_ok_upd_node[OF 1]) simp
  have 3: "dis_ok (inbox_append sender (DIO self) (notify_control ?w1))"
    by (rule dis_ok_inbox_append) (use 1 in \<open>simp_all add: dis_ok_notify\<close>)
  have 4: "dis_ok (inbox_append sender (DIO self) (notify_control ?w2))"
    by (rule dis_ok_inbox_append) (use 2 in \<open>simp_all add: dis_ok_notify\<close>)
  show ?thesis
    using assms 3 4 unfolding receive_dis_def Let_def by simp
qed

lemma dis_ok_receive_dio:
  assumes "receive_dio w self sender = Some w'" "dis_ok w"
  shows "dis_ok w'"
proof (cases "w' = w")
  case True
  with assms show ?thesis by simp
next
  case False
  with assms(1) obtain p where
    w': "w' = inbox_append p (DAO self (prefix (all_nodes (adopt w self sender) ! self)))
               (notify_control (adopt w self sender))"
    by (auto simp: receive_dio_def send_dao_def Let_def split: if_splits option.splits)
  show ?thesis unfolding w'
    by (rule dis_ok_inbox_append) (use assms(2) in \<open>simp_all add: dis_ok_notify dis_ok_adopt\<close>)
qed

lemma dis_ok_receive_dao:
  assumes "dis_ok w"
  shows "dis_ok (receive_dao w self p c)"
proof -
  let ?w1 = "upd_node self (\<lambda>n. n\<lparr>downward_routes := AList.update p c (downward_routes n)\<rparr>) w"
  have 1: "dis_ok ?w1" by (rule dis_ok_upd_node[OF assms]) simp
  have 2: "dis_ok (inbox_append q (DAO c p) (notify_control ?w1))" for q
    by (rule dis_ok_inbox_append) (use 1 in \<open>simp_all add: dis_ok_notify\<close>)
  from assms 1 2 show ?thesis
    unfolding receive_dao_def Let_def
    by (auto split: option.split intro!: dis_ok_queue)
qed

lemma dis_ok_handle_packet: "dis_ok w \<Longrightarrow> dis_ok (handle_packet w self pkt)"
  unfolding handle_packet_def Let_def
  by (auto split: option.split simp: dis_ok_notify intro!: dis_ok_queue)

lemma dis_ok_trickle_timer:
  assumes "dis_ok w" "self < length (all_nodes w)"
  shows "dis_ok (trickle_timer w self r)"
proof -
  have "dis_ok (trickle_probe w self)"
    using assms by (simp add: trickle_probe_def send_dis_def dis_ok_send_dis_loop)
  then show ?thesis
    unfolding trickle_timer_def trickle_update_def Let_def
    by (intro dis_ok_upd_node) simp_all
qed

lemma dis_ok_run_inbox:
  assumes "run_inbox w self = Some w'" "dis_ok w"
  shows "dis_ok w'"
proof -
  from assms(1) obtain m rest where
    ib: "inbox (all_nodes w ! self) = m # rest" and
    d: "dispatch (upd_node self (\<lambda>n. n\<lparr>inbox := rest\<rparr>) w) self m = Some w'"
    by (auto simp: run_inbox_def split: list.splits)
  let ?w1 = "upd_node self (\<lambda>n. n\<lparr>inbox := rest\<rparr>) w"
  have 1: "dis_ok ?w1"
    by (rule dis_ok_upd_node[OF assms(2)]) (auto simp: ib)
  show ?thesis
  proof (cases m)
    case (DIS s)
    with d 1 show ?thesis by (auto simp: dispatch_def intro: dis_ok_receive_dis)
  next
    case (DIO s)
    with d have "receive_dio ?w1 self s = Some w'" by (simp add: dispatch_def)
    then show ?thesis using 1 by (rule dis_ok_receive_dio)
  next
    case (DAO c p)
    with d 1 show ?thesis by (auto simp: dispatch_def intro: dis_ok_receive_dao)
  next
    case (DAO_ACK f p s)
    with d 1 show ?thesis by (auto simp: dispatch_def receive_dao_ack_def)
  next
    case (Data pkt)
    with d 1 show ?thesis
      by (auto simp: dispatch_def dis_ok_notify intro!: dis_ok_handle_packet)
  qed
qed

lemma dis_ok_arrive:
  assumes "arrive w = Some w'" "dis_ok w"
  shows "dis_ok w'"
proof -
  from assms(1) obtain target m rest where
    q: "in_flight w = (target, m) # rest" and
    w': "w' = inbox_append target m (w\<lparr>in_flight := rest\<rparr>)"
    by (auto simp: arrive_def split: list.splits)
  from assms(2) q have m: "\<And>s. m \<noteq> DIS s" and rest: "dis_ok (w\<lparr>in_flight := rest\<rparr>)"
    unfolding dis_ok_def by auto
  show ?thesis unfolding w'
    by (rule dis_ok_inbox_append[OF rest]) (simp add: m)
qed

lemma dis_ok_create:
  assumes "dis_ok w"
  shows "dis_ok (w\<lparr>all_nodes := all_nodes w @ [Node i pos rt r]\<rparr>)"
proof -
  have "s < Suc (length (all_nodes w)) \<and> s \<noteq> j"
    if "j < Suc (length (all_nodes w))"
      and "DIS s \<in> set (inbox ((all_nodes w @ [Node i pos rt r]) ! j))" for j s
  proof (cases "j < length (all_nodes w)")
    case True
    with that(2) have "DIS s \<in> set (inbox (all_nodes w ! j))" by (simp add: nth_append)
    with assms True have "s < length (all_nodes w) \<and> s \<noteq> j" unfolding dis_ok_def by blast
    then show ?thesis by simp
  next
    case False
    with that show ?thesis by (simp add: nth_append Node_def)
  qed
  moreover from assms have "\<forall>x\<in>set (in_flight w). \<forall>s. snd x \<noteq> DIS s"
    unfolding dis_ok_def by blast
  ultimately show ?thesis
    unfolding dis_ok_def by simp
qed

lemma nbrs_ok_create:
  assumes "nbrs_ok nbs"
  shows "nbrs_ok (nbs @ [[]])"
proof (rule nbrs_okI)
  fix a b
  assume a: "a < length (nbs @ [[]])" and b: "b \<in> set ((nbs @ [[]]) ! a)"
  from a b have a': "a < length nbs" by (cases "a < length nbs") (simp_all add: nth_append)
  with b have "b \<in> set (nbs ! a)" by (simp add: nth_append)
  from nbrs_okD[OF assms a' this]
  show "b < length (nbs @ [[]]) \<and> b \<noteq> a \<and> a \<in> set ((nbs @ [[]]) ! b)"
    by (simp add: nth_append)
qed

lemma fire_handshake_inv:
  assumes "fire w e = Some w'" "nbr_ok w" "dis_ok w"
  shows "nbr_ok w' \<and> dis_ok w'"
proof (cases e)
  case (Create pos r)
  with assms(1) have w': "w' = w\<lparr>all_nodes := all_nodes w @
      [Node (length (all_nodes w)) pos (length (all_nodes w) = 0) r]\<rparr>"
    by (auto simp: fire_def create_node_def Let_def split: if_splits)
  have "nbr_ok w'"
    using nbrs_ok_create[of "map neighbors (all_nodes w)"] assms(2)
    by (simp add: w' nbr_ok_def Node_def)
  moreover have "dis_ok w'"
    unfolding w' by (rule dis_ok_create[OF assms(3)])
  ultimately show ?thesis ..
next
  case (Discover i)
  with assms(1) have i: "i < length (all_nodes w)" and w': "w' = discover_neighbors w i"
    by (auto simp: fire_def split: if_splits)
  have "same_nbrs w w'"
    by (simp add: w' discover_neighbors_def same_nbrs_discover_loop same_nbrs_steps same_nbrs_refl)
  moreover have "dis_ok w'"
    unfolding w' discover_neighbors_def
    by (rule dis_ok_discover_loop) (use assms(3) i in \<open>simp_all add: dis_ok_notify notify_control_simps\<close>)
  ultimately show ?thesis using assms(2) by (simp add: nbr_ok_same)
next
  case (Deliver i)
  with assms(1) have i: "i < length (all_nodes w)" and r: "run_inbox w i = Some w'"
    by (auto simp: fire_def split: if_splits)
  from r assms(3) have d: "dis_ok w'" by (rule dis_ok_run_inbox)
  from r obtain m rest where
    ib: "inbox (all_nodes w ! i) = m # rest" and
    dp: "dispatch (upd_node i (\<lambda>n. n\<lparr>inbox := rest\<rparr>) w) i m = Some w'"
    by (auto simp: run_inbox_def split: list.splits)
  let ?w1 = "upd_node i (\<lambda>n. n\<lparr>inbox := rest\<rparr>) w"
  have s1: "same_nbrs w ?w1" by (simp add: same_nbrs_upd_node same_nbrs_refl)
  then have n1: "nbr_ok ?w1" using assms(2) by (simp add: nbr_ok_same)
  have "nbr_ok w'"
  proof (cases m)
    case (DIS s)
    from assms(3) i ib DIS have "s < length (all_nodes w) \<and> s \<noteq> i"
      unfolding dis_ok_def by (metis list.set_intros(1))
    with i have "nbr_ok (receive_dis ?w1 i s)"
      by (intro nbr_ok_receive_dis[OF n1]) (simp_all add: upd_node_simps)
    with dp DIS show ?thesis by (simp add: dispatch_def)
  next
    case (DIO s)
    with dp have "receive_dio ?w1 i s = Some w'" by (simp add: dispatch_def)
    from same_nbrs_receive_dio[OF this, of w] s1 have "same_nbrs w w'" by simp
    with assms(2) show ?thesis by (simp add: nbr_ok_same)
  next
    case (DAO c p)
    with dp s1 have "same_nbrs w w'"
      by (auto simp: dispatch_def same_nbrs_receive_dao)
    with assms(2) show ?thesis by (simp add: nbr_ok_same)
  next
    case (DAO_ACK f p s)
    with dp n1 show ?thesis by (auto simp: dispatch_def receive_dao_ack_def)
  next
    case (Data pkt)
    with dp s1 have "same_nbrs w w'"
      by (auto simp: dispatch_def same_nbrs_handle_packet same_nbrs_steps)
    with assms(2) show ?thesis by (simp add: nbr_ok_same)
  qed
  with d show ?thesis by simp
next
  case (SendDio i)
  with assms(1) have w': "w' = send_dio w i"
    by (auto simp: fire_def split: if_splits)
  have "same_nbrs w w'"
    by (simp add: w' send_dio_def same_nbrs_send_dio_loop same_nbrs_refl)
  moreover have "dis_ok w'"
    unfolding w' send_dio_def by (rule dis_ok_send_dio_loop[OF assms(3)])
  ultimately show ?thesis using assms(2) by (simp add: nbr_ok_same)
next
  case (Trickle i r)
  with assms(1) have i: "i < length (all_nodes w)" and w': "w' = trickle_timer w i r"
    by (auto simp: fire_def split: if_splits)
  have "same_nbrs w w'"
    by (simp add: w' same_nbrs_trickle_timer same_nbrs_refl)
  moreover have "dis_ok w'"
    unfolding w' by (rule dis_ok_trickle_timer[OF assms(3) i])
  ultimately show ?thesis using assms(2) by (simp add: nbr_ok_same)
next
  case Arrive
  with assms(1) have a: "arrive w = Some w'" by (simp add: fire_def)
  then have "same_nbrs w w'"
    by (auto simp: arrive_def same_nbrs_def world_simps map_upd_field split: list.splits)
  moreover from a assms(3) have "dis_ok w'" by (rule dis_ok_arrive)
  ultimately show ?thesis using assms(2) by (simp add: nbr_ok_same)
next
  case (Attack a k f)
  with assms(1) have "w' = w \<or> (\<exists>x p. w' = receive_dao w x p a)"
    by (auto simp: fire_def launch_cycle_def Let_def split: if_splits)
  then have "same_nbrs w w'" and "dis_ok w'"
    using assms(3) by (auto simp: same_nbrs_receive_dao same_nbrs_refl intro: dis_ok_receive_dao)
  then show ?thesis using assms(2) by (simp add: nbr_ok_same)
next
  case (Traffic src dst pid)
  with assms(1) have w': "w' = generate_traffic w src dst pid"
    by (auto simp: fire_def Let_def split: if_splits)
  have "same_nbrs w w'"
    by (simp add: w' generate_traffic_def Let_def same_nbrs_steps same_nbrs_refl)
  moreover have "dis_ok w'"
    unfolding w' generate_traffic_def Let_def
    by (intro dis_ok_queue) (simp add: dis_ok_notify assms(3))
  ultimately show ?thesis using assms(2) by (simp add: nbr_ok_same)
qed

lemma run_handshake_inv:
  "run w es = Some w' \<Longrightarrow> nbr_ok w \<Longrightarrow> dis_ok w \<Longrightarrow> nbr_ok w' \<and> dis_ok w'"
proof (induction es arbitrary: w)
  case Nil
  then show ?case by simp
next
  case (Cons e es)
  from Cons.prems(1) obtain w1 where f: "fire w e = Some w1" and r: "run w1 es = Some w'"
    by (auto split: option.splits)
  from fire_handshake_inv[OF f Cons.prems(2,3)] have "nbr_ok w1" "dis_ok w1" by simp_all
  with r show ?case by (rule Cons.IH)
qed

lemma init_world_handshake: "nbr_ok (init_world fl mon nn md cr)" "dis_ok (init_world fl mon nn md cr)"
  by (simp_all add: nbr_ok_def nbrs_ok_def dis_ok_def init_world_def)

text \<open>
  Claim C6. In every world that a run reaches from the empty world, a node is among the
  neighbours of another exactly when the other is among its own, no node is its own
  neighbour, and every neighbour is a node of the world. A DIS from a sender in range that
  is not yet a neighbour makes each of the two a neighbour of the other in the one step
  that handles it.
\<close>

theorem neighbors_mutual:
  "(run (init_world fl mon nn md cr) es = Some w \<longrightarrow>
      (\<forall>a<length (all_nodes w). \<forall>b<length (all_nodes w).
         a \<in> set (neighbors (all_nodes w ! b)) \<longleftrightarrow> b \<in> set (neighbors (all_nodes w ! a))) \<and>
      (\<forall>a<length (all_nodes w).
         a \<notin> set (neighbors (all_nodes w ! a)) \<and>
         (\<forall>b\<in>set (neighbors (all_nodes w ! a)). b < length (all_nodes w)))) \<and>
   (self < length (all_nodes v) \<and> sender < length (all_nodes v) \<and> sender \<noteq> self \<and>
    sender \<notin> set (neighbors (all_nodes v ! self)) \<and>
    calculate_distance (arith v) (all_nodes v ! self) (position (all_nodes v ! sender))
      \<le> CONNECTION_RANGE v \<longrightarrow>
      sender \<in> set (neighbors (all_nodes (receive_dis v self sender) ! self)) \<and>
      self \<in> set (neighbors (all_nodes (receive_dis v self sender) ! sender)))"
proof (intro conjI impI)
  assume "run (init_world fl mon nn md cr) es = Some w"
  from run_handshake_inv[OF this init_world_handshake]
  have ok: "nbrs_ok (map neighbors (all_nodes w))"
    by (simp add: nbr_ok_def)
  have d: "b < length (all_nodes w) \<and> b \<noteq> a \<and> a \<in> set (neighbors (all_nodes w ! b))"
    if "a < length (all_nodes w)" "b \<in> set (neighbors (all_nodes w ! a))" for a b
    using nbrs_okD[OF ok, of a b] that by auto
  show "\<forall>a<length (all_nodes w). \<forall>b<length (all_nodes w).
         a \<in> set (neighbors (all_nodes w ! b)) \<longleftrightarrow> b \<in> set (neighbors (all_nodes w ! a))"
    using d by blast
  show "\<forall>a<length (all_nodes w).
         a \<notin> set (neighbors (all_nodes w ! a)) \<and>
         (\<forall>b\<in>set (neighbors (all_nodes w ! a)). b < length (all_nodes w))"
    using d by blast
next
  assume a: "self < length (all_nodes v) \<and> sender < length (all_nodes v) \<and> sender \<noteq> self \<and>
    sender \<notin> set (neighbors (all_nodes v ! self)) \<and>
    calculate_distance (arith v) (all_nodes v ! self) (position (all_nodes v ! sender))
      \<le> CONNECTION_RANGE v"
  then show "sender \<in> set (neighbors (all_nodes (receive_dis v self sender) ! self))"
    by (simp add: receive_dis_def Let_def world_simps nth_list_update)
  from a show "self \<in> set (neighbors (all_nodes (receive_dis v self sender) ! sender))"
    by (simp add: receive_dis_def Let_def world_simps nth_list_update)
qed

theorem neighbors_mutual_witness:
  "run (init_world ieee_double (Some new_monitor) 100 6 100) settled_events = Some settled_world \<and>
   3 < length (all_nodes settled_world) \<and>
   (3 \<in> set (neighbors (all_nodes settled_world ! 1))) =
     (1 \<in> set (neighbors (all_nodes settled_world ! 3))) \<and>
   3 \<notin> set (neighbors (all_nodes settled_world ! 3)) \<and>
   (0 < length (all_nodes created_world) \<and> 1 < length (all_nodes created_world) \<and>
    (1::nat) \<noteq> 0 \<and> 1 \<notin> set (neighbors (all_nodes created_world ! 0)) \<and>
    calculate_distance (arith created_world) (all_nodes created_world ! 0) (position (all_nodes created_world ! 1))
      \<le> CONNECTION_RANGE created_world) \<and>
   1 \<in> set (neighbors (all_nodes (receive_dis created_world 0 1) ! 0)) \<and>
   0 \<in> set (neighbors (all_nodes (receive_dis created_world 0 1) ! 1))"
proof -
  note t = neighbors_mutual [where fl = ieee_double and mon = "Some new_monitor" and nn = 100 and md = 6
      and cr = 100 and es = settled_events and w = settled_world and v = created_world
      and self = 0 and sender = 1]
  have r: "run (init_world ieee_double (Some new_monitor) 100 6 100) settled_events = Some settled_world"
    by (rule run_settled [unfolded cfg_world_def])
  have l: "3 < length (all_nodes settled_world)" "1 < length (all_nodes settled_world)"
    by (simp_all add: settled_world_def)
  have h: "0 < length (all_nodes created_world) \<and> 1 < length (all_nodes created_world) \<and>
    (1::nat) \<noteq> 0 \<and> 1 \<notin> set (neighbors (all_nodes created_world ! 0)) \<and>
    calculate_distance (arith created_world) (all_nodes created_world ! 0) (position (all_nodes created_world ! 1))
      \<le> CONNECTION_RANGE created_world"
    by (simp add: created_world_def distances)
  note c = t [THEN conjunct1, rule_format, OF r]
  from c [THEN conjunct1, rule_format, OF l(1) l(2)]
    c [THEN conjunct2, rule_format, OF l(1), THEN conjunct1]
    t [THEN conjunct2, rule_format, OF h] r l h
  show ?thesis by blast
qed

section \<open>Prefixes\<close>

lemma same_ids_refl: "same_ids w w"
  by (simp add: same_ids_def)

lemma same_ids_upd_node:
  "(\<And>n. ids (f n) = ids n) \<Longrightarrow> same_ids w (upd_node i f w') = same_ids w w'"
  by (simp add: same_ids_def upd_node_simps map_upd_field)

lemma same_ids_steps:
  "same_ids w (inbox_append i m w') = same_ids w w'"
  "same_ids w (notify g w') = same_ids w w'"
  "same_ids w (notify_control w') = same_ids w w'"
  "same_ids w (send_packet w' self pkt h) = same_ids w w'"
  "same_ids w (send_dao_ack w' self c p st) = same_ids w w'"
  by (simp_all add: same_ids_def world_simps map_upd_field ids_def)

lemma same_ids_discover_loop:
  "same_ids w (discover_loop self js w') = same_ids w w'"
  by (induction js arbitrary: w') (simp_all add: same_ids_steps)

lemma same_ids_send_dis_loop:
  "same_ids w (send_dis_loop self js w') = same_ids w w'"
  by (induction js arbitrary: w') (simp_all add: same_ids_steps)

lemma same_ids_send_dio_loop:
  "same_ids w (send_dio_loop self js w') = same_ids w w'"
  by (induction js arbitrary: w') (simp_all add: same_ids_steps)

lemma same_ids_receive_dis:
  "same_ids w (receive_dis w' self sender) = same_ids w w'"
  by (simp add: receive_dis_def Let_def same_ids_steps same_ids_upd_node ids_def)

lemma same_ids_receive_dao:
  "same_ids w (receive_dao w' self p c) = same_ids w w'"
  by (simp add: receive_dao_def Let_def same_ids_steps same_ids_upd_node ids_def
      split: option.split)

lemma same_ids_handle_packet:
  "same_ids w (handle_packet w' self pkt) = same_ids w w'"
  by (simp add: handle_packet_def Let_def same_ids_steps split: option.split)

lemma same_ids_trickle_timer:
  "same_ids w (trickle_timer w' self r) = same_ids w w'"
  by (simp add: trickle_timer_def trickle_update_def trickle_probe_def send_dis_def Let_def
      same_ids_upd_node same_ids_send_dis_loop ids_def)

lemma same_idsD:
  assumes "same_ids w w'"
  shows "length (all_nodes w') = length (all_nodes w)"
    and "i < length (all_nodes w) \<Longrightarrow> ids (all_nodes w' ! i) = ids (all_nodes w ! i)"
proof -
  from assms have m: "map ids (all_nodes w') = map ids (all_nodes w)"
    by (simp add: same_ids_def)
  from arg_cong[OF m, of length] show l: "length (all_nodes w') = length (all_nodes w)"
    by simp
  assume i: "i < length (all_nodes w)"
  from arg_cong[OF m, of "\<lambda>xs. xs ! i"] i l
  show "ids (all_nodes w' ! i) = ids (all_nodes w ! i)" by simp
qed

lemma receive_dio_ids:
  assumes "receive_dio w self sender = Some w'" "self < length (all_nodes w)"
  shows "length (all_nodes w') = length (all_nodes w)"
    and "i \<noteq> self \<Longrightarrow> ids (all_nodes w' ! i) = ids (all_nodes w ! i)"
    and "ids (all_nodes w' ! self) = ids (all_nodes w ! self) \<or>
         ids (all_nodes w' ! self) =
           (node_num (all_nodes w ! self), is_root (all_nodes w ! self), Some sender,
            derive (prefix (all_nodes w ! sender)) (node_num (all_nodes w ! self)))"
proof -
  from assms(1) have c: "w' = w \<or> w' = inbox_append sender
      (DAO self (derive (prefix (all_nodes w ! sender)) (node_num (all_nodes w ! self))))
      (notify_control (adopt w self sender))"
    by (auto simp: receive_dio_def Let_def send_dao_adopt[OF assms(2)]
        split: if_splits option.splits)
  have n: "F (all_nodes (inbox_append sender m (notify_control (adopt w self sender))) ! j) =
      F ((all_nodes w)[self := (all_nodes w ! self)
        \<lparr>parent := Some sender,
         prefix := derive (prefix (all_nodes w ! sender)) (node_num (all_nodes w ! self))\<rparr>] ! j)"
    if "\<And>n x. F (n\<lparr>inbox := x\<rparr>) = F n" for F :: "node \<Rightarrow> 'a" and m j
    unfolding inbox_append_simps notify_control_simps adopt_nodes
    by (rule nth_upd_field) (simp add: that)
  from c show "length (all_nodes w') = length (all_nodes w)"
    by (auto simp: inbox_append_fields notify_control_simps adopt_nodes)
  from c show "ids (all_nodes w' ! i) = ids (all_nodes w ! i)" if "i \<noteq> self"
    using that n[of ids] by (auto simp: ids_def)
  from c assms(2) show "ids (all_nodes w' ! self) = ids (all_nodes w ! self) \<or>
         ids (all_nodes w' ! self) =
           (node_num (all_nodes w ! self), is_root (all_nodes w ! self), Some sender,
            derive (prefix (all_nodes w ! sender)) (node_num (all_nodes w ! self)))"
    using n[of ids] by (auto simp: ids_def)
qed

text \<open>
  What an event does to the number, the root flag, the parent and the prefix of a node:
  nothing, unless the node handles a DIO and takes its sender as parent.
\<close>

lemma fire_same_ids:
  assumes "fire w e = Some w'" "\<And>pos r. e \<noteq> Create pos r"
    "\<And>j s rest. e = Deliver j \<Longrightarrow> inbox (all_nodes w ! j) \<noteq> DIO s # rest"
  shows "same_ids w w'"
proof (cases e)
  case (Create pos r)
  with assms(2)[of pos r] show ?thesis by simp
next
  case (Discover i)
  with assms(1) show ?thesis
    by (auto simp: fire_def discover_neighbors_def same_ids_discover_loop same_ids_steps
        same_ids_refl split: if_splits)
next
  case (Deliver j)
  with assms(1) have r: "run_inbox w j = Some w'"
    by (simp add: fire_def split: if_splits)
  then obtain m rest where
    ib: "inbox (all_nodes w ! j) = m # rest" and
    dp: "dispatch (upd_node j (\<lambda>n. n\<lparr>inbox := rest\<rparr>) w) j m = Some w'"
    by (auto simp: run_inbox_def split: list.splits)
  have s1: "same_ids w (upd_node j (\<lambda>n. n\<lparr>inbox := rest\<rparr>) w)"
    by (simp add: same_ids_upd_node same_ids_refl ids_def)
  from assms(3)[OF Deliver] ib have "\<And>s. m \<noteq> DIO s" by auto
  with dp s1 show ?thesis
    by (cases m)
      (auto simp: dispatch_def same_ids_receive_dis same_ids_receive_dao receive_dao_ack_def
        same_ids_handle_packet same_ids_steps)
next
  case (SendDio i)
  with assms(1) show ?thesis
    by (auto simp: fire_def send_dio_def same_ids_send_dio_loop same_ids_refl split: if_splits)
next
  case (Trickle i r)
  with assms(1) show ?thesis
    by (auto simp: fire_def same_ids_trickle_timer same_ids_refl split: if_splits)
next
  case Arrive
  with assms(1) show ?thesis
    by (auto simp: fire_def arrive_def same_ids_def world_simps map_upd_field ids_def
        split: list.splits)
next
  case (Attack a k f)
  with assms(1) have "w' = w \<or> (\<exists>x p. w' = receive_dao w x p a)"
    by (auto simp: fire_def launch_cycle_def Let_def split: if_splits)
  then show ?thesis
    by (auto simp: same_ids_receive_dao same_ids_refl)
next
  case (Traffic src dst pid)
  with assms(1) show ?thesis
    by (auto simp: fire_def generate_traffic_def Let_def same_ids_steps same_ids_refl
        split: if_splits)
qed

lemma fire_length:
  assumes "fire w e = Some w'"
  shows "length (all_nodes w') = length (all_nodes w) \<or>
    (\<exists>pos r. all_nodes w' =
       all_nodes w @ [Node (length (all_nodes w)) pos (length (all_nodes w) = 0) r])"
proof (cases "\<exists>pos r. e = Create pos r")
  case True
  then obtain pos r where e: "e = Create pos r" by blast
  with assms have "all_nodes w' =
      all_nodes w @ [Node (length (all_nodes w)) pos (length (all_nodes w) = 0) r]"
    by (auto simp: fire_def create_node_def Let_def split: if_splits)
  then show ?thesis by blast
next
  case nc: False
  show ?thesis
  proof (cases "\<exists>j s rest. e = Deliver j \<and> inbox (all_nodes w ! j) = DIO s # rest")
    case True
    then obtain j s rest where e: "e = Deliver j"
      and ib: "inbox (all_nodes w ! j) = DIO s # rest" by blast
    let ?w1 = "upd_node j (\<lambda>n. n\<lparr>inbox := rest\<rparr>) w"
    from assms e ib have j: "j < length (all_nodes w)"
      and r: "receive_dio ?w1 j s = Some w'"
      by (auto simp: fire_def run_inbox_def dispatch_def split: if_splits)
    from j have "j < length (all_nodes ?w1)" by (simp add: upd_node_simps)
    from receive_dio_ids(1)[OF r this] show ?thesis by (simp add: upd_node_simps)
  next
    case False
    with nc have "same_ids w w'"
      by (intro fire_same_ids[OF assms]) blast+
    from same_idsD(1)[OF this] show ?thesis by simp
  qed
qed

lemma fire_ids:
  assumes "fire w e = Some w'" "i < length (all_nodes w)"
  shows "ids (all_nodes w' ! i) = ids (all_nodes w ! i) \<or>
    (\<exists>s rest. e = Deliver i \<and> inbox (all_nodes w ! i) = DIO s # rest \<and>
       ids (all_nodes w' ! i) =
         (node_num (all_nodes w ! i), is_root (all_nodes w ! i), Some s,
          derive (prefix (all_nodes w ! s)) (node_num (all_nodes w ! i))))"
proof (cases "\<exists>pos r. e = Create pos r")
  case True
  with assms show ?thesis
    by (auto simp: fire_def create_node_def Let_def nth_append split: if_splits)
next
  case nc: False
  show ?thesis
  proof (cases "\<exists>j s rest. e = Deliver j \<and> inbox (all_nodes w ! j) = DIO s # rest")
    case True
    then obtain j s rest where e: "e = Deliver j"
      and ib: "inbox (all_nodes w ! j) = DIO s # rest" by blast
    let ?w1 = "upd_node j (\<lambda>n. n\<lparr>inbox := rest\<rparr>) w"
    from assms e ib have j: "j < length (all_nodes w)"
      and r: "receive_dio ?w1 j s = Some w'"
      by (auto simp: fire_def run_inbox_def dispatch_def split: if_splits)
    from j have j1: "j < length (all_nodes ?w1)" by (simp add: upd_node_simps)
    have w1: "ids (all_nodes ?w1 ! x) = ids (all_nodes w ! x)"
      "prefix (all_nodes ?w1 ! x) = prefix (all_nodes w ! x)"
      "node_num (all_nodes ?w1 ! x) = node_num (all_nodes w ! x)"
      "is_root (all_nodes ?w1 ! x) = is_root (all_nodes w ! x)" for x
      unfolding upd_node_simps by (rule nth_upd_field, simp add: ids_def)+
    show ?thesis
    proof (cases "i = j")
      case True
      from receive_dio_ids(3)[OF r j1] show ?thesis
        unfolding w1 using e ib True by auto
    next
      case False
      from receive_dio_ids(2)[OF r j1 False] show ?thesis
        unfolding w1 by simp
    qed
  next
    case False
    with nc have "same_ids w w'"
      by (intro fire_same_ids[OF assms(1)]) blast+
    from same_idsD(2)[OF this assms(2)] show ?thesis by simp
  qed
qed

lemma fire_root_child_ok:
  assumes f: "fire w e = Some w'" and rt: "list_all root_ok (all_nodes w)"
    and ok: "root_child_ok w"
  shows "root_child_ok w'"
  unfolding root_child_ok_def
proof (intro allI impI)
  fix i assume i': "i < length (all_nodes w')"
  show "node_num (all_nodes w' ! i) = i \<and>
    (parent (all_nodes w' ! i) = Some 0 \<longrightarrow> prefix (all_nodes w' ! i) = derive root_prefix i)"
  proof (cases "i < length (all_nodes w)")
    case True
    with ok have old: "node_num (all_nodes w ! i) = i"
      "parent (all_nodes w ! i) = Some 0 \<Longrightarrow> prefix (all_nodes w ! i) = derive root_prefix i"
      unfolding root_child_ok_def by blast+
    have z: "0 < length (all_nodes w)"
      by (rule le_less_trans[OF le0 True])
    with ok have "node_num (all_nodes w ! 0) = 0"
      unfolding root_child_ok_def by blast
    moreover from rt z have "root_ok (all_nodes w ! 0)"
      by (simp add: list_all_length)
    ultimately have p0: "prefix (all_nodes w ! 0) = root_prefix"
      by (simp add: root_ok_def)
    from fire_ids[OF f True] show ?thesis
    proof
      assume "ids (all_nodes w' ! i) = ids (all_nodes w ! i)"
      with old show ?thesis by (simp add: ids_def)
    next
      assume "\<exists>s rest. e = Deliver i \<and> inbox (all_nodes w ! i) = DIO s # rest \<and>
        ids (all_nodes w' ! i) =
          (node_num (all_nodes w ! i), is_root (all_nodes w ! i), Some s,
           derive (prefix (all_nodes w ! s)) (node_num (all_nodes w ! i)))"
      then obtain s where "ids (all_nodes w' ! i) =
          (node_num (all_nodes w ! i), is_root (all_nodes w ! i), Some s,
           derive (prefix (all_nodes w ! s)) (node_num (all_nodes w ! i)))" by blast
      with old(1) p0 show ?thesis by (auto simp: ids_def)
    qed
  next
    case False
    with i' fire_length[OF f] obtain pos r where
      n: "all_nodes w' =
        all_nodes w @ [Node (length (all_nodes w)) pos (length (all_nodes w) = 0) r]"
      by auto
    with i' False have "i = length (all_nodes w)" by simp
    then show ?thesis by (simp add: n Node_def)
  qed
qed

lemma run_root_child_ok:
  "run w es = Some w' \<Longrightarrow> list_all root_ok (all_nodes w) \<Longrightarrow> root_child_ok w \<Longrightarrow>
   root_child_ok w'"
proof (induction es arbitrary: w)
  case Nil
  then show ?case by simp
next
  case (Cons e es)
  from Cons.prems(1) obtain w1 where f: "fire w e = Some w1" and r: "run w1 es = Some w'"
    by (auto split: option.splits)
  have f1: "run w [e] = Some w1" using f by simp
  have "list_all root_ok (all_nodes w1)"
    by (rule run_root_ok[OF f1 Cons.prems(2)])
  moreover have "root_child_ok w1"
    by (rule fire_root_child_ok[OF f Cons.prems(2,3)])
  ultimately show ?case using r by (intro Cons.IH)
qed

lemma dio_ok_notify:
  "dio_ok (notify g w) = dio_ok w"
  "dio_ok (notify_control w) = dio_ok w"
  by (simp_all add: dio_ok_def world_simps)

lemma dio_ok_upd_node:
  assumes "dio_ok w"
    and "i < length (all_nodes w) \<Longrightarrow>
         set (inbox (f (all_nodes w ! i))) \<subseteq> set (inbox (all_nodes w ! i))"
  shows "dio_ok (upd_node i f w)"
proof -
  have "s < length (all_nodes w) \<and> s \<noteq> j"
    if j: "j < length (all_nodes w)"
      and s: "DIO s \<in> set (inbox ((all_nodes w)[i := f (all_nodes w ! i)] ! j))" for j s
  proof -
    from j s assms(2) have "DIO s \<in> set (inbox (all_nodes w ! j))"
      by (cases "j = i") auto
    with assms(1) j show ?thesis unfolding dio_ok_def by blast
  qed
  moreover from assms(1) have "\<forall>x\<in>set (in_flight w). \<forall>s. snd x \<noteq> DIO s"
    unfolding dio_ok_def by blast
  ultimately show ?thesis
    unfolding dio_ok_def upd_node_simps by simp
qed

lemma dio_ok_inbox_append:
  assumes "dio_ok w" and "\<And>s. m = DIO s \<Longrightarrow> s < length (all_nodes w) \<and> s \<noteq> i"
  shows "dio_ok (inbox_append i m w)"
proof -
  have "s < length (all_nodes w) \<and> s \<noteq> j"
    if j: "j < length (all_nodes w)"
      and s: "DIO s \<in> set (inbox (all_nodes (inbox_append i m w) ! j))" for j s
  proof -
    from s have "DIO s \<in> set (inbox (all_nodes w ! j)) \<or> (m = DIO s \<and> j = i)"
      by (auto simp: inbox_append_inbox split: if_splits)
    with assms j show ?thesis unfolding dio_ok_def by blast
  qed
  moreover from assms(1) have "\<forall>x\<in>set (in_flight w). \<forall>s. snd x \<noteq> DIO s"
    unfolding dio_ok_def by blast
  ultimately show ?thesis
    unfolding dio_ok_def by (simp add: inbox_append_fields inbox_append_simps(2))
qed

lemma dio_ok_queue:
  "dio_ok w \<Longrightarrow> dio_ok (send_packet w self pkt h)"
  "dio_ok w \<Longrightarrow> dio_ok (send_dao_ack w self c p st)"
  unfolding dio_ok_def by (auto simp: world_simps)

lemma dio_ok_adopt: "dio_ok w \<Longrightarrow> dio_ok (adopt w self sender)"
  unfolding adopt_def Let_def by (intro dio_ok_upd_node) simp_all

lemma dio_ok_discover_loop:
  "dio_ok w \<Longrightarrow> dio_ok (discover_loop self js w)"
proof (induction js arbitrary: w)
  case Nil
  then show ?case by simp
next
  case (Cons i js)
  have "dio_ok (inbox_append i (DIS self) w)"
    by (rule dio_ok_inbox_append) (use Cons.prems in simp_all)
  with Cons.prems show ?case
    by (auto intro!: Cons.IH)
qed

lemma dio_ok_send_dis_loop:
  "dio_ok w \<Longrightarrow> dio_ok (send_dis_loop self js w)"
proof (induction js arbitrary: w)
  case Nil
  then show ?case by simp
next
  case (Cons i js)
  have "dio_ok (inbox_append i (DIS self) (notify_control w))"
    by (rule dio_ok_inbox_append) (use Cons.prems in \<open>simp_all add: dio_ok_notify\<close>)
  with Cons.prems show ?case
    by (auto intro!: Cons.IH)
qed

lemma dio_ok_send_dio_loop:
  "dio_ok w \<Longrightarrow> self < length (all_nodes w) \<Longrightarrow> self \<notin> set js \<Longrightarrow>
   dio_ok (send_dio_loop self js w)"
proof (induction js arbitrary: w)
  case Nil
  then show ?case by simp
next
  case (Cons i js)
  have "dio_ok (inbox_append i (DIO self) (notify_control w))"
    by (rule dio_ok_inbox_append)
      (use Cons.prems in \<open>auto simp: dio_ok_notify notify_control_simps\<close>)
  with Cons.prems show ?case
    by (auto intro!: Cons.IH simp: inbox_append_fields notify_control_simps)
qed

lemma dio_ok_receive_dis:
  assumes "dio_ok w" "self < length (all_nodes w)" "sender \<noteq> self"
  shows "dio_ok (receive_dis w self sender)"
proof -
  let ?w1 = "upd_node self (\<lambda>n. n\<lparr>neighbors := neighbors n @ [sender]\<rparr>) w"
  let ?w2 = "upd_node sender (\<lambda>n. n\<lparr>neighbors := neighbors n @ [self]\<rparr>) ?w1"
  have 1: "dio_ok ?w1" by (rule dio_ok_upd_node[OF assms(1)]) simp
  have 2: "dio_ok ?w2" by (rule dio_ok_upd_node[OF 1]) simp
  have 3: "dio_ok (inbox_append sender (DIO self) (notify_control ?w1))"
    by (rule dio_ok_inbox_append)
      (use 1 assms(2,3) in \<open>auto simp: dio_ok_notify notify_control_simps upd_node_simps\<close>)
  have 4: "dio_ok (inbox_append sender (DIO self) (notify_control ?w2))"
    by (rule dio_ok_inbox_append)
      (use 2 assms(2,3) in \<open>auto simp: dio_ok_notify notify_control_simps upd_node_simps\<close>)
  from assms(1) 3 4 show ?thesis
    unfolding receive_dis_def Let_def by simp
qed

lemma dio_ok_receive_dio:
  assumes "receive_dio w self sender = Some w'" "dio_ok w"
  shows "dio_ok w'"
proof (cases "w' = w")
  case True
  with assms show ?thesis by simp
next
  case False
  with assms(1) obtain p where
    w': "w' = inbox_append p (DAO self (prefix (all_nodes (adopt w self sender) ! self)))
               (notify_control (adopt w self sender))"
    by (auto simp: receive_dio_def send_dao_def Let_def split: if_splits option.splits)
  show ?thesis unfolding w'
    by (rule dio_ok_inbox_append) (use assms(2) in \<open>simp_all add: dio_ok_notify dio_ok_adopt\<close>)
qed

lemma dio_ok_receive_dao:
  assumes "dio_ok w"
  shows "dio_ok (receive_dao w self p c)"
proof -
  let ?w1 = "upd_node self (\<lambda>n. n\<lparr>downward_routes := AList.update p c (downward_routes n)\<rparr>) w"
  have 1: "dio_ok ?w1" by (rule dio_ok_upd_node[OF assms]) simp
  have 2: "dio_ok (inbox_append q (DAO c p) (notify_control ?w1))" for q
    by (rule dio_ok_inbox_append) (use 1 in \<open>simp_all add: dio_ok_notify\<close>)
  from assms 1 2 show ?thesis
    unfolding receive_dao_def Let_def
    by (auto split: option.split intro!: dio_ok_queue)
qed

lemma dio_ok_handle_packet: "dio_ok w \<Longrightarrow> dio_ok (handle_packet w self pkt)"
  unfolding handle_packet_def Let_def
  by (auto split: option.split simp: dio_ok_notify intro!: dio_ok_queue)

lemma dio_ok_trickle_timer:
  assumes "dio_ok w"
  shows "dio_ok (trickle_timer w self r)"
proof -
  have "dio_ok (trickle_probe w self)"
    using assms by (simp add: trickle_probe_def send_dis_def dio_ok_send_dis_loop)
  then show ?thesis
    unfolding trickle_timer_def trickle_update_def Let_def
    by (intro dio_ok_upd_node) simp_all
qed

lemma dio_ok_run_inbox:
  assumes "run_inbox w self = Some w'" "dio_ok w" "dis_ok w" "self < length (all_nodes w)"
  shows "dio_ok w'"
proof -
  from assms(1) obtain m rest where
    ib: "inbox (all_nodes w ! self) = m # rest" and
    d: "dispatch (upd_node self (\<lambda>n. n\<lparr>inbox := rest\<rparr>) w) self m = Some w'"
    by (auto simp: run_inbox_def split: list.splits)
  let ?w1 = "upd_node self (\<lambda>n. n\<lparr>inbox := rest\<rparr>) w"
  have 1: "dio_ok ?w1"
    by (rule dio_ok_upd_node[OF assms(2)]) (auto simp: ib)
  show ?thesis
  proof (cases m)
    case (DIS s)
    from assms(3,4) ib DIS have "s \<noteq> self"
      unfolding dis_ok_def by (metis list.set_intros(1))
    with assms(4) have "dio_ok (receive_dis ?w1 self s)"
      by (intro dio_ok_receive_dis[OF 1]) (simp_all add: upd_node_simps)
    with d DIS show ?thesis by (simp add: dispatch_def)
  next
    case (DIO s)
    with d have "receive_dio ?w1 self s = Some w'" by (simp add: dispatch_def)
    then show ?thesis using 1 by (rule dio_ok_receive_dio)
  next
    case (DAO c p)
    with d 1 show ?thesis by (auto simp: dispatch_def intro: dio_ok_receive_dao)
  next
    case (DAO_ACK f p s)
    with d 1 show ?thesis by (auto simp: dispatch_def receive_dao_ack_def)
  next
    case (Data pkt)
    with d 1 show ?thesis
      by (auto simp: dispatch_def dio_ok_notify intro!: dio_ok_handle_packet)
  qed
qed

lemma dio_ok_arrive:
  assumes "arrive w = Some w'" "dio_ok w"
  shows "dio_ok w'"
proof -
  from assms(1) obtain target m rest where
    q: "in_flight w = (target, m) # rest" and
    w': "w' = inbox_append target m (w\<lparr>in_flight := rest\<rparr>)"
    by (auto simp: arrive_def split: list.splits)
  from assms(2) q have m: "\<And>s. m \<noteq> DIO s" and rest: "dio_ok (w\<lparr>in_flight := rest\<rparr>)"
    unfolding dio_ok_def by auto
  show ?thesis unfolding w'
    by (rule dio_ok_inbox_append[OF rest]) (simp add: m)
qed

lemma dio_ok_create:
  assumes "dio_ok w"
  shows "dio_ok (w\<lparr>all_nodes := all_nodes w @ [Node i pos rt r]\<rparr>)"
proof -
  have "s < Suc (length (all_nodes w)) \<and> s \<noteq> j"
    if "j < Suc (length (all_nodes w))"
      and "DIO s \<in> set (inbox ((all_nodes w @ [Node i pos rt r]) ! j))" for j s
  proof (cases "j < length (all_nodes w)")
    case True
    with that(2) have "DIO s \<in> set (inbox (all_nodes w ! j))" by (simp add: nth_append)
    with assms True have "s < length (all_nodes w) \<and> s \<noteq> j" unfolding dio_ok_def by blast
    then show ?thesis by simp
  next
    case False
    with that show ?thesis by (simp add: nth_append Node_def)
  qed
  moreover from assms have "\<forall>x\<in>set (in_flight w). \<forall>s. snd x \<noteq> DIO s"
    unfolding dio_ok_def by blast
  ultimately show ?thesis
    unfolding dio_ok_def by simp
qed

lemma fire_dio_ok:
  assumes "fire w e = Some w'" "nbr_ok w" "dis_ok w" "dio_ok w"
  shows "dio_ok w'"
proof (cases e)
  case (Create pos r)
  with assms(1) have w': "w' = w\<lparr>all_nodes := all_nodes w @
      [Node (length (all_nodes w)) pos (length (all_nodes w) = 0) r]\<rparr>"
    by (auto simp: fire_def create_node_def Let_def split: if_splits)
  show ?thesis unfolding w' by (rule dio_ok_create[OF assms(4)])
next
  case (Discover i)
  with assms(1) have w': "w' = discover_neighbors w i"
    by (auto simp: fire_def split: if_splits)
  show ?thesis unfolding w' discover_neighbors_def
    by (rule dio_ok_discover_loop) (simp add: dio_ok_notify assms(4))
next
  case (Deliver i)
  with assms(1) have i: "i < length (all_nodes w)" and r: "run_inbox w i = Some w'"
    by (auto simp: fire_def split: if_splits)
  from r assms(4,3) i show ?thesis by (rule dio_ok_run_inbox)
next
  case (SendDio i)
  with assms(1) have i: "i < length (all_nodes w)" and w': "w' = send_dio w i"
    by (auto simp: fire_def split: if_splits)
  from assms(2) i have "i \<notin> set (neighbors (all_nodes w ! i))"
    using nbrs_okD[of "map neighbors (all_nodes w)" i i] by (auto simp: nbr_ok_def)
  with assms(4) i show ?thesis
    unfolding w' send_dio_def by (intro dio_ok_send_dio_loop)
next
  case (Trickle i r)
  with assms(1) have w': "w' = trickle_timer w i r"
    by (auto simp: fire_def split: if_splits)
  show ?thesis unfolding w' by (rule dio_ok_trickle_timer[OF assms(4)])
next
  case Arrive
  with assms(1) have a: "arrive w = Some w'" by (simp add: fire_def)
  from a assms(4) show ?thesis by (rule dio_ok_arrive)
next
  case (Attack a k f)
  with assms(1) have "w' = w \<or> (\<exists>x p. w' = receive_dao w x p a)"
    by (auto simp: fire_def launch_cycle_def Let_def split: if_splits)
  then show ?thesis
    using assms(4) by (auto intro: dio_ok_receive_dao)
next
  case (Traffic src dst pid)
  with assms(1) have w': "w' = generate_traffic w src dst pid"
    by (auto simp: fire_def Let_def split: if_splits)
  show ?thesis
    unfolding w' generate_traffic_def Let_def
    by (intro dio_ok_queue) (simp add: dio_ok_notify assms(4))
qed

lemma run_dio_ok:
  "run w es = Some w' \<Longrightarrow> nbr_ok w \<Longrightarrow> dis_ok w \<Longrightarrow> dio_ok w \<Longrightarrow> dio_ok w'"
proof (induction es arbitrary: w)
  case Nil
  then show ?case by simp
next
  case (Cons e es)
  from Cons.prems(1) obtain w1 where f: "fire w e = Some w1" and r: "run w1 es = Some w'"
    by (auto split: option.splits)
  from fire_handshake_inv[OF f Cons.prems(2,3)] have "nbr_ok w1" "dis_ok w1" by simp_all
  moreover have "dio_ok w1" by (rule fire_dio_ok[OF f Cons.prems(2-4)])
  ultimately show ?case using r by (intro Cons.IH)
qed

lemma init_world_dio_ok: "dio_ok (init_world fl mon nn md cr)"
  by (simp add: dio_ok_def init_world_def)

text \<open>
  Claim C1, as stated, fails. In the run \<open>switched_events\<close> node 3 takes node 1 as parent
  while the prefix of node 1 is \<open>2001:db8::1:01\<close>; later node 1 switches to the nearer
  node 2 and derives \<open>2001:db8::1:02:01\<close>, and the prefix of node 3 stays
  \<open>2001:db8::1:01:03\<close>.
\<close>

theorem prefix_invariant_counterexample:
  "run cfg_world switched_events \<noteq> None \<and>
   \<not> prefix_inv (the (run cfg_world switched_events))"
  by (simp add: switched_events_def run_append run_settled)
     (simp add: settled_world_def prefix_inv_def eval_defs)

text \<open>
  Claim C1, amended: the equation holds for a node from the step in which it takes a
  parent until that parent changes its own prefix. In full: when a DIO makes a node adopt
  or switch to the sender, the node has the sender as parent right after the step and its
  prefix is the one derived from the prefix of the sender with the number of the node.
  No event changes the number or the root flag of a node, and an event that changes the
  parent or the prefix of a node is the delivery of a DIO to that node, which makes the
  sender the parent and derives the prefix from the prefix the sender has then. So the
  equation of a node with its parent survives every event that leaves the node with that
  parent and the parent with its prefix. In every world that a run reaches from the empty
  world: the root is the node numbered 0, its prefix is the fixed one and it has no
  parent; the nodes are numbered by their place; a node whose parent is the root has the
  prefix derived from the prefix of the root; and whenever an event changes the parent or
  the prefix of a node, the new parent is another node of the world and the equation
  holds right after the event.
\<close>

theorem prefix_derived_on_adoption:
  "(self < length (all_nodes w) \<and> sender < length (all_nodes w) \<and> sender \<noteq> self \<and>
    receive_dio w self sender = Some w' \<and> w' \<noteq> w \<longrightarrow>
      parent (all_nodes w' ! self) = Some sender \<and>
      prefix (all_nodes w' ! self) =
        derive (prefix (all_nodes w' ! sender)) (node_num (all_nodes w' ! self))) \<and>
   (fire u e = Some u' \<and> i < length (all_nodes u) \<longrightarrow>
      i < length (all_nodes u') \<and>
      node_num (all_nodes u' ! i) = node_num (all_nodes u ! i) \<and>
      is_root (all_nodes u' ! i) = is_root (all_nodes u ! i)) \<and>
   (fire u e = Some u' \<and> i < length (all_nodes u) \<and>
    (parent (all_nodes u' ! i) \<noteq> parent (all_nodes u ! i) \<or>
     prefix (all_nodes u' ! i) \<noteq> prefix (all_nodes u ! i)) \<longrightarrow>
      (\<exists>s rest. e = Deliver i \<and> inbox (all_nodes u ! i) = DIO s # rest \<and>
         parent (all_nodes u' ! i) = Some s \<and>
         prefix (all_nodes u' ! i) =
           derive (prefix (all_nodes u ! s)) (node_num (all_nodes u ! i)))) \<and>
   (fire u e = Some u' \<and> i < length (all_nodes u) \<and>
    parent (all_nodes u ! i) = Some p \<and> parent (all_nodes u' ! i) = Some p \<and>
    prefix (all_nodes u ! i) = derive (prefix (all_nodes u ! p)) (node_num (all_nodes u ! i)) \<and>
    prefix (all_nodes u' ! p) = prefix (all_nodes u ! p) \<longrightarrow>
      prefix (all_nodes u' ! i) =
        derive (prefix (all_nodes u' ! p)) (node_num (all_nodes u' ! i))) \<and>
   (run (init_world fl mon nn md cr) es = Some v \<longrightarrow>
      (\<forall>n\<in>set (all_nodes v).
         (is_root n \<longleftrightarrow> node_num n = 0) \<and>
         (is_root n \<longrightarrow> prefix n = root_prefix \<and> parent n = None))) \<and>
   (run (init_world fl mon nn md cr) es = Some v \<longrightarrow>
      (\<forall>k<length (all_nodes v).
         node_num (all_nodes v ! k) = k \<and>
         (parent (all_nodes v ! k) = Some 0 \<longrightarrow>
            prefix (all_nodes v ! k) =
              derive (prefix (all_nodes v ! 0)) (node_num (all_nodes v ! k))))) \<and>
   (run (init_world fl mon nn md cr) es = Some v \<and> fire v d = Some v' \<and>
    j < length (all_nodes v) \<and>
    (parent (all_nodes v' ! j) \<noteq> parent (all_nodes v ! j) \<or>
     prefix (all_nodes v' ! j) \<noteq> prefix (all_nodes v ! j)) \<longrightarrow>
      (\<exists>s. parent (all_nodes v' ! j) = Some s \<and> s < length (all_nodes v') \<and> s \<noteq> j \<and>
         prefix (all_nodes v' ! j) =
           derive (prefix (all_nodes v' ! s)) (node_num (all_nodes v' ! j))))"
proof (intro conjI impI)
  assume a: "self < length (all_nodes w) \<and> sender < length (all_nodes w) \<and> sender \<noteq> self \<and>
    receive_dio w self sender = Some w' \<and> w' \<noteq> w"
  then have v: "self < length (all_nodes w)"
    and sd: "send_dao (adopt w self sender) self = Some w'"
    by (auto simp: receive_dio_def Let_def split: if_splits option.splits)
  from sd have w': "w' = inbox_append sender
      (DAO self (derive (prefix (all_nodes w ! sender)) (node_num (all_nodes w ! self))))
      (notify_control (adopt w self sender))"
    unfolding send_dao_adopt[OF v] by simp
  from a show "parent (all_nodes w' ! self) = Some sender"
    by (simp add: w' world_simps adopt_nodes nth_list_update)
  from a show "prefix (all_nodes w' ! self) =
      derive (prefix (all_nodes w' ! sender)) (node_num (all_nodes w' ! self))"
    by (simp add: w' world_simps adopt_nodes nth_list_update)
next
  assume a: "fire u e = Some u' \<and> i < length (all_nodes u)"
  then have f: "fire u e = Some u'" and i: "i < length (all_nodes u)" by simp_all
  from fire_length[OF f] i show "i < length (all_nodes u')" by auto
  from fire_ids[OF f i]
  show "node_num (all_nodes u' ! i) = node_num (all_nodes u ! i)"
    and "is_root (all_nodes u' ! i) = is_root (all_nodes u ! i)"
    by (auto simp: ids_def)
next
  assume a: "fire u e = Some u' \<and> i < length (all_nodes u) \<and>
    (parent (all_nodes u' ! i) \<noteq> parent (all_nodes u ! i) \<or>
     prefix (all_nodes u' ! i) \<noteq> prefix (all_nodes u ! i))"
  then have f: "fire u e = Some u'" and i: "i < length (all_nodes u)" by simp_all
  from a have "ids (all_nodes u' ! i) \<noteq> ids (all_nodes u ! i)"
    by (auto simp: ids_def)
  with fire_ids[OF f i]
  show "\<exists>s rest. e = Deliver i \<and> inbox (all_nodes u ! i) = DIO s # rest \<and>
         parent (all_nodes u' ! i) = Some s \<and>
         prefix (all_nodes u' ! i) =
           derive (prefix (all_nodes u ! s)) (node_num (all_nodes u ! i))"
    by (auto simp: ids_def)
next
  assume a: "fire u e = Some u' \<and> i < length (all_nodes u) \<and>
    parent (all_nodes u ! i) = Some p \<and> parent (all_nodes u' ! i) = Some p \<and>
    prefix (all_nodes u ! i) = derive (prefix (all_nodes u ! p)) (node_num (all_nodes u ! i)) \<and>
    prefix (all_nodes u' ! p) = prefix (all_nodes u ! p)"
  then have f: "fire u e = Some u'" and i: "i < length (all_nodes u)" by simp_all
  from fire_ids[OF f i] a
  show "prefix (all_nodes u' ! i) =
      derive (prefix (all_nodes u' ! p)) (node_num (all_nodes u' ! i))"
    by (auto simp: ids_def)
next
  assume "run (init_world fl mon nn md cr) es = Some v"
  then have "list_all root_ok (all_nodes v)"
    by (rule run_root_ok) (simp add: init_world_nodes)
  then show "\<forall>n\<in>set (all_nodes v).
         (is_root n \<longleftrightarrow> node_num n = 0) \<and>
         (is_root n \<longrightarrow> prefix n = root_prefix \<and> parent n = None)"
    by (simp add: list_all_iff root_ok_def)
next
  assume r: "run (init_world fl mon nn md cr) es = Some v"
  then have rt: "list_all root_ok (all_nodes v)"
    by (rule run_root_ok) (simp add: init_world_nodes)
  from r have ok: "root_child_ok v"
    by (rule run_root_child_ok) (simp_all add: init_world_nodes root_child_ok_def)
  show "\<forall>k<length (all_nodes v).
         node_num (all_nodes v ! k) = k \<and>
         (parent (all_nodes v ! k) = Some 0 \<longrightarrow>
            prefix (all_nodes v ! k) =
              derive (prefix (all_nodes v ! 0)) (node_num (all_nodes v ! k)))"
  proof (intro allI impI)
    fix k assume k: "k < length (all_nodes v)"
    have z: "0 < length (all_nodes v)"
      by (rule le_less_trans[OF le0 k])
    with ok have "node_num (all_nodes v ! 0) = 0"
      unfolding root_child_ok_def by blast
    moreover from rt z have "root_ok (all_nodes v ! 0)"
      by (simp add: list_all_length)
    ultimately have p0: "prefix (all_nodes v ! 0) = root_prefix"
      by (simp add: root_ok_def)
    from ok k have "node_num (all_nodes v ! k) = k \<and>
        (parent (all_nodes v ! k) = Some 0 \<longrightarrow> prefix (all_nodes v ! k) = derive root_prefix k)"
      unfolding root_child_ok_def by blast
    then show "node_num (all_nodes v ! k) = k \<and>
         (parent (all_nodes v ! k) = Some 0 \<longrightarrow>
            prefix (all_nodes v ! k) =
              derive (prefix (all_nodes v ! 0)) (node_num (all_nodes v ! k)))"
      unfolding p0 by simp
  qed
next
  assume a: "run (init_world fl mon nn md cr) es = Some v \<and> fire v d = Some v' \<and>
    j < length (all_nodes v) \<and>
    (parent (all_nodes v' ! j) \<noteq> parent (all_nodes v ! j) \<or>
     prefix (all_nodes v' ! j) \<noteq> prefix (all_nodes v ! j))"
  then have r: "run (init_world fl mon nn md cr) es = Some v"
    and f: "fire v d = Some v'" and j: "j < length (all_nodes v)" by simp_all
  from run_handshake_inv[OF r init_world_handshake] have "nbr_ok v" "dis_ok v" by simp_all
  with r have dio: "dio_ok v"
    by (intro run_dio_ok[OF r]) (simp_all add: init_world_handshake init_world_dio_ok)
  from a have "ids (all_nodes v' ! j) \<noteq> ids (all_nodes v ! j)"
    by (auto simp: ids_def)
  with fire_ids[OF f j] obtain s rest where d: "d = Deliver j"
    and ib: "inbox (all_nodes v ! j) = DIO s # rest"
    and new: "ids (all_nodes v' ! j) =
      (node_num (all_nodes v ! j), is_root (all_nodes v ! j), Some s,
       derive (prefix (all_nodes v ! s)) (node_num (all_nodes v ! j)))"
    by blast
  from ib have "DIO s \<in> set (inbox (all_nodes v ! j))" by simp
  with dio j have s: "s < length (all_nodes v)" "s \<noteq> j"
    unfolding dio_ok_def by blast+
  from fire_ids[OF f s(1)] d s(2) have "ids (all_nodes v' ! s) = ids (all_nodes v ! s)"
    by auto
  then have ps: "prefix (all_nodes v' ! s) = prefix (all_nodes v ! s)"
    by (simp add: ids_def)
  from fire_length[OF f] s(1) have "s < length (all_nodes v')" by auto
  with new s(2) ps
  show "\<exists>s. parent (all_nodes v' ! j) = Some s \<and> s < length (all_nodes v') \<and> s \<noteq> j \<and>
         prefix (all_nodes v' ! j) =
           derive (prefix (all_nodes v' ! s)) (node_num (all_nodes v' ! j))"
    by (auto simp: ids_def)
qed

theorem prefix_derived_on_adoption_witness:
  "(1 < length (all_nodes settled_world) \<and> 2 < length (all_nodes settled_world) \<and>
    (2::nat) \<noteq> 1 \<and>
    receive_dio settled_world 1 2 = Some (the (receive_dio settled_world 1 2)) \<and>
    the (receive_dio settled_world 1 2) \<noteq> settled_world) \<and>
   (parent (all_nodes (the (receive_dio settled_world 1 2)) ! 1) = Some 2 \<and>
    prefix (all_nodes (the (receive_dio settled_world 1 2)) ! 1) =
      derive (prefix (all_nodes (the (receive_dio settled_world 1 2)) ! 2))
        (node_num (all_nodes (the (receive_dio settled_world 1 2)) ! 1))) \<and>
   fire settled_world (Deliver 1) = Some (the (fire settled_world (Deliver 1))) \<and>
   1 < length (all_nodes (the (fire settled_world (Deliver 1)))) \<and>
   node_num (all_nodes (the (fire settled_world (Deliver 1))) ! 1) =
     node_num (all_nodes settled_world ! 1) \<and>
   is_root (all_nodes (the (fire settled_world (Deliver 1))) ! 1) =
     is_root (all_nodes settled_world ! 1) \<and>
   parent (all_nodes (the (fire settled_world (Deliver 1))) ! 1)
     \<noteq> parent (all_nodes settled_world ! 1) \<and>
   inbox (all_nodes settled_world ! 1) = [DIO 2] \<and>
   parent (all_nodes (the (fire settled_world (Deliver 1))) ! 1) = Some 2 \<and>
   prefix (all_nodes (the (fire settled_world (Deliver 1))) ! 1) =
     derive (prefix (all_nodes settled_world ! 2)) (node_num (all_nodes settled_world ! 1)) \<and>
   (parent (all_nodes settled_world ! 2) = Some 0 \<and>
    parent (all_nodes (the (fire settled_world (Deliver 1))) ! 2) = Some 0 \<and>
    prefix (all_nodes settled_world ! 2) =
      derive (prefix (all_nodes settled_world ! 0)) (node_num (all_nodes settled_world ! 2)) \<and>
    prefix (all_nodes (the (fire settled_world (Deliver 1))) ! 0) =
      prefix (all_nodes settled_world ! 0)) \<and>
   prefix (all_nodes (the (fire settled_world (Deliver 1))) ! 2) =
     derive (prefix (all_nodes (the (fire settled_world (Deliver 1))) ! 0))
       (node_num (all_nodes (the (fire settled_world (Deliver 1))) ! 2)) \<and>
   prefix (all_nodes (the (fire settled_world (Deliver 1))) ! 1) =
     derive (prefix (all_nodes (the (fire settled_world (Deliver 1))) ! 2))
       (node_num (all_nodes (the (fire settled_world (Deliver 1))) ! 1)) \<and>
   run (init_world ieee_double (Some new_monitor) 100 6 100) settled_events = Some settled_world \<and>
   is_root (all_nodes settled_world ! 0) \<and>
   prefix (all_nodes settled_world ! 0) = root_prefix \<and>
   parent (all_nodes settled_world ! 0) = None \<and>
   node_num (all_nodes settled_world ! 2) = 2 \<and>
   prefix (all_nodes settled_world ! 2) =
     derive (prefix (all_nodes settled_world ! 0)) (node_num (all_nodes settled_world ! 2))"
proof -
  let ?u' = "the (fire settled_world (Deliver 1))"
  note t = prefix_derived_on_adoption [where w = settled_world and self = 1 and sender = 2
      and w' = "the (receive_dio settled_world 1 2)" and fl = ieee_double
      and mon = "Some new_monitor" and nn = 100 and md = 6 and cr = 100
      and es = settled_events and v = settled_world
      and u = settled_world and e = "Deliver 1" and u' = ?u' and p = 0
      and d = "Deliver 1" and v' = ?u' and j = 1]
  note t1 = t [where i = 1]
  note t2 = t [where i = 2]
  have r: "run (init_world ieee_double (Some new_monitor) 100 6 100) settled_events = Some settled_world"
    by (rule run_settled [unfolded cfg_world_def])
  have h: "1 < length (all_nodes settled_world) \<and> 2 < length (all_nodes settled_world) \<and>
    (2::nat) \<noteq> 1 \<and>
    receive_dio settled_world 1 2 = Some (the (receive_dio settled_world 1 2)) \<and>
    the (receive_dio settled_world 1 2) \<noteq> settled_world"
    by (simp add: settled_world_def eval_defs)
  have f: "fire settled_world (Deliver 1) = Some ?u'"
    by (simp add: settled_world_def eval_defs)
  have l: "1 < length (all_nodes settled_world)" "2 < length (all_nodes settled_world)"
    by (simp_all add: settled_world_def)
  have chg: "parent (all_nodes ?u' ! 1) \<noteq> parent (all_nodes settled_world ! 1)"
    by (simp add: settled_world_def eval_defs)
  have ib: "inbox (all_nodes settled_world ! 1) = [DIO 2]"
    by (simp add: settled_world_def)
  have d: "parent (all_nodes settled_world ! 2) = Some 0 \<and>
    parent (all_nodes ?u' ! 2) = Some 0 \<and>
    prefix (all_nodes settled_world ! 2) =
      derive (prefix (all_nodes settled_world ! 0)) (node_num (all_nodes settled_world ! 2)) \<and>
    prefix (all_nodes ?u' ! 0) = prefix (all_nodes settled_world ! 0)"
    by (simp add: settled_world_def eval_defs)
  have m: "all_nodes settled_world ! 0 \<in> set (all_nodes settled_world)"
    and rt: "is_root (all_nodes settled_world ! 0)"
    by (simp_all add: settled_world_def)
  note c1 = t1 [THEN conjunct1, rule_format, OF h]
  note c2 = t1 [THEN conjunct2, THEN conjunct1, rule_format, OF conjI [OF f l(1)]]
  have b: "fire settled_world (Deliver 1) = Some ?u' \<and> 1 < length (all_nodes settled_world) \<and>
    (parent (all_nodes ?u' ! 1) \<noteq> parent (all_nodes settled_world ! 1) \<or>
     prefix (all_nodes ?u' ! 1) \<noteq> prefix (all_nodes settled_world ! 1))"
    using f l(1) chg by blast
  from t1 [THEN conjunct2, THEN conjunct2, THEN conjunct1, rule_format, OF b]
  obtain s rest where "inbox (all_nodes settled_world ! 1) = DIO s # rest"
    and c3: "parent (all_nodes ?u' ! 1) = Some s"
      "prefix (all_nodes ?u' ! 1) =
        derive (prefix (all_nodes settled_world ! s)) (node_num (all_nodes settled_world ! 1))"
    by blast
  with ib have s: "s = 2" by simp
  have dd: "fire settled_world (Deliver 1) = Some ?u' \<and> 2 < length (all_nodes settled_world) \<and>
    parent (all_nodes settled_world ! 2) = Some 0 \<and>
    parent (all_nodes ?u' ! 2) = Some 0 \<and>
    prefix (all_nodes settled_world ! 2) =
      derive (prefix (all_nodes settled_world ! 0)) (node_num (all_nodes settled_world ! 2)) \<and>
    prefix (all_nodes ?u' ! 0) = prefix (all_nodes settled_world ! 0)"
    using f l(2) d by blast
  note c4 = t2 [THEN conjunct2, THEN conjunct2, THEN conjunct2, THEN conjunct1, rule_format,
      OF dd]
  note c5 = t1 [THEN conjunct2, THEN conjunct2, THEN conjunct2, THEN conjunct2, THEN conjunct1,
      rule_format, OF r m]
  note c6 = t1 [THEN conjunct2, THEN conjunct2, THEN conjunct2, THEN conjunct2, THEN conjunct2,
      THEN conjunct1, rule_format, OF r l(2)]
  have g: "run (init_world ieee_double (Some new_monitor) 100 6 100) settled_events =
      Some settled_world \<and>
    fire settled_world (Deliver 1) = Some ?u' \<and> 1 < length (all_nodes settled_world) \<and>
    (parent (all_nodes ?u' ! 1) \<noteq> parent (all_nodes settled_world ! 1) \<or>
     prefix (all_nodes ?u' ! 1) \<noteq> prefix (all_nodes settled_world ! 1))"
    using r b by blast
  from t1 [THEN conjunct2, THEN conjunct2, THEN conjunct2, THEN conjunct2, THEN conjunct2,
      THEN conjunct2, rule_format, OF g]
  obtain s' where "parent (all_nodes ?u' ! 1) = Some s'"
    and c8: "prefix (all_nodes ?u' ! 1) =
      derive (prefix (all_nodes ?u' ! s')) (node_num (all_nodes ?u' ! 1))"
    by blast
  with c3(1) s have s': "s' = 2" by simp
  have p2: "parent (all_nodes settled_world ! 2) = Some 0"
    using d by blast
  note c7 = c6 [THEN conjunct2, rule_format, OF p2]
  from c1 c2 c3 [unfolded s] c4 c5 c6 c7 c8 [unfolded s'] r h f chg ib d rt
  show ?thesis by blast
qed

end
